theory Spec2Isabelle
  imports Complex_Main "HOL-Library.AList"
begin

section \<open>Python primitives used by \<open>codecarbon/core/cpu.py\<close>\<close>

text \<open>
  Every exception the module can raise or let through is a value of \<open>error\<close>; a function
  that may raise returns \<open>error + 'a\<close> with \<open>Inl\<close> for the exception.
\<close>

datatype error =
    SystemError
  | FileNotFoundError
  | NotADirectoryError
  | IsADirectoryError
  | PermissionError
  | ValueError
  | IndexError
  | KeyError
  | UnicodeDecodeError
  | ReadFailure
  | ParserError

text \<open>\<open>max(xs)\<close>: raises ValueError on an empty list.\<close>

definition py_max :: "int list \<Rightarrow> error + int" where
  "py_max xs = (case xs of [] \<Rightarrow> Inl ValueError | x # ys \<Rightarrow> Inr (fold max ys x))"

text \<open>\<open>xs.index(v)\<close>: the first position holding \<open>v\<close>; raises ValueError when there is none.\<close>

fun py_index :: "'a list \<Rightarrow> 'a \<Rightarrow> error + nat" where
  "py_index [] v = Inl ValueError"
| "py_index (x # xs) v =
     (if x = v then Inr 0
      else (case py_index xs v of Inl e \<Rightarrow> Inl e | Inr i \<Rightarrow> Inr (Suc i)))"

text \<open>\<open>series.iloc[i]\<close> for \<open>i \<ge> 0\<close>: positional access, IndexError out of range.\<close>

definition iloc :: "'a list \<Rightarrow> nat \<Rightarrow> error + 'a" where
  "iloc xs i = (if i < length xs then Inr (xs ! i) else Inl IndexError)"

text \<open>
  \<open>series[i]\<close> on a series with the default \<open>RangeIndex\<close> (what \<open>read_csv\<close> builds): access
  by label, the labels being the positions; KeyError for a label that is not there.
\<close>

definition loc :: "'a list \<Rightarrow> nat \<Rightarrow> error + 'a" where
  "loc xs i = (if i < length xs then Inr (xs ! i) else Inl KeyError)"

text \<open>\<open>[f(x) for x in xs]\<close> where \<open>f\<close> may raise: the first exception aborts the comprehension.\<close>

fun map_raise :: "('a \<Rightarrow> error + 'b) \<Rightarrow> 'a list \<Rightarrow> error + 'b list" where
  "map_raise f [] = Inr []"
| "map_raise f (x # xs) =
     (case f x of
        Inl e \<Rightarrow> Inl e
      | Inr y \<Rightarrow> (case map_raise f xs of Inl e \<Rightarrow> Inl e | Inr ys \<Rightarrow> Inr (y # ys)))"

text \<open>
  \<open>str.lower\<close> on the ASCII letters (a \<open>string\<close> is a list of bytes; bytes outside
  \<open>A\<close>..\<open>Z\<close> are kept).
\<close>

definition lower_char :: "char \<Rightarrow> char" where
  "lower_char c =
     (let n = (of_char c :: nat) in if 65 \<le> n \<and> n \<le> 90 then char_of (n + 32) else c)"

definition lower :: "string \<Rightarrow> string" where
  "lower s = map lower_char s"

text \<open>\<open>s.startswith(p)\<close> and the substring test \<open>sub in s\<close>.\<close>

definition startswith :: "string \<Rightarrow> string \<Rightarrow> bool" where
  "startswith s p = (take (length p) s = p)"

fun contains :: "string \<Rightarrow> string \<Rightarrow> bool" where
  "contains [] sub = (sub = [])"
| "contains (c # cs) sub = (startswith (c # cs) sub \<or> contains cs sub)"

text \<open>
  \<open>str.strip()\<close>: removes leading and trailing white space; the ASCII white-space
  characters are tab to carriage return, the four separators \<open>0x1c\<close>..\<open>0x1f\<close> and space.
\<close>

definition isspace :: "char \<Rightarrow> bool" where
  "isspace c =
     (let n = (of_char c :: nat) in (9 \<le> n \<and> n \<le> 13) \<or> (28 \<le> n \<and> n \<le> 31) \<or> n = 32)"

definition strip :: "string \<Rightarrow> string" where
  "strip s = rev (dropWhile isspace (rev (dropWhile isspace s)))"

text \<open>\<open>str(n)\<close> for a non-negative integer: its decimal digits.\<close>

fun str_nat :: "nat \<Rightarrow> string" where
  "str_nat n =
     (if n < 10 then [char_of (48 + n)]
      else str_nat (n div 10) @ [char_of (48 + n mod 10)])"

declare str_nat.simps [simp del]

text \<open>
  \<open>os.path.join(a, *ps)\<close> on a POSIX system: a component starting with \<open>/\<close> replaces what
  came before it, otherwise it is appended, after a \<open>/\<close> unless the path so far is empty
  or ends with one.
\<close>

definition path_join2 :: "string \<Rightarrow> string \<Rightarrow> string" where
  "path_join2 a b =
     (if startswith b ''/'' then b
      else if a = [] \<or> last a = CHR ''/'' then a @ b
      else a @ ''/'' @ b)"

definition os_path_join :: "string \<Rightarrow> string list \<Rightarrow> string" where
  "os_path_join a ps = foldl path_join2 a ps"

text \<open>
  A loop \<open>for x in xs: f(x)\<close> (also \<open>list(map(f, xs))\<close>) whose body mutates \<open>x\<close> and may
  raise: the objects visited before the exception keep their new state, the others are
  untouched, and the exception, if any, is returned beside them.
\<close>

fun for_each :: "('a \<Rightarrow> error + 'a) \<Rightarrow> 'a list \<Rightarrow> 'a list \<times> error option" where
  "for_each f [] = ([], None)"
| "for_each f (x # xs) =
     (case f x of
        Inl e \<Rightarrow> (x # xs, Some e)
      | Inr y \<Rightarrow> (case for_each f xs of (ys, r) \<Rightarrow> (y # ys, r)))"

section \<open>The reference dataset and the string-similarity library\<close>

text \<open>
  A row of the CPU power table returned by \<open>DataSource().get_cpu_power_data()\<close>: the
  columns \<open>Name\<close> and \<open>TDP\<close>. The data frame is the list of its rows, in file order.
\<close>

record cpu_row =
  Name :: string
  TDP :: int

type_synonym cpu_df = "cpu_row list"

text \<open>
  \<open>fuzzywuzzy.fuzz\<close> is an external library: its two scoring functions are parameters of
  the model. Both return an integer score.
\<close>

record fuzz =
  ratio :: "string \<Rightarrow> string \<Rightarrow> int"
  token_set_ratio :: "string \<Rightarrow> string \<Rightarrow> int"

section \<open>The host: everything the module reads from outside\<close>

text \<open>
  A cell of a parsed log is a number or missing (\<open>NaN\<close>). Numbers are rationals: the
  arithmetic of the aggregation is modelled exactly, without floating-point rounding. The
  text in a clock column, which is never aggregated, is represented by any number. A data
  frame is the list of its columns, in file order, each with its name and its cells; all
  columns of a frame have the same number of cells.
\<close>

datatype cell = NaN | Num rat

type_synonym data_frame = "(string \<times> cell list) list"

text \<open>
  The file system as the module sees it: the paths that exist, each a regular file with
  the text its content decodes to, a regular file whose content does not decode in the
  encoding of the locale, a directory with its entries in the order \<open>os.listdir\<close> returns
  them, or a node that may not be read.
\<close>

datatype node = File string | Undecodable | Dir "string list" | Denied

text \<open>The two forms of command the module passes to \<open>subprocess.call\<close>.\<close>

datatype command = ArgList "string list" | ShellString string

text \<open>One constructor for each logging call of the module, with the values it formats.\<close>

datatype log_event =
    Debug_rapl_unavailable error
  | Warning_returncode int
  | Info_unable_to_read_log string error
  | Info_unable_to_read_rapl error
  | Debug_detected string "int option"
  | Warning_unknown_model string
  | Warning_undetected

record host =
  platform :: string
  fs :: "(string \<times> node) list"
  energy_before :: "(string \<times> rat) list"
  energy_after :: "(string \<times> rat) list"
  max_energy_range :: "(string \<times> rat) list"
  subprocess_call :: "command \<Rightarrow> int"
  read_csv :: "string \<Rightarrow> error + data_frame"
  cpu_info :: "(string \<times> string) list"
  cpu_power_data :: cpu_df

text \<open>
  \<open>platform\<close> is \<open>sys.platform\<close>; \<open>energy_before\<close> and \<open>energy_after\<close> give, for the path
  of an energy counter, its reading when sampling starts and when it stops;
  \<open>subprocess_call\<close> is the exit status of a command; \<open>read_csv\<close> is what \<open>pandas.read_csv\<close>
  makes of the file at a path after the logging tool has run; \<open>cpu_info\<close> is the dictionary
  returned by \<open>cpuinfo.get_cpu_info()\<close>; \<open>cpu_power_data\<close> is the table returned by
  \<open>DataSource().get_cpu_power_data()\<close>.
\<close>

text \<open>
  The proper ancestors of a path: its non-empty prefixes that end just before a \<open>/\<close>. A
  path that has a regular file among its ancestors cannot be resolved: the system call
  fails with \<open>ENOTDIR\<close>.
\<close>

definition ancestors :: "string \<Rightarrow> string list" where
  "ancestors p =
     filter (\<lambda>q. q \<noteq> [])
       (map (\<lambda>i. take i p) (filter (\<lambda>i. p ! i = CHR ''/'') [0..<length p]))"

definition below_regular_file :: "host \<Rightarrow> string \<Rightarrow> bool" where
  "below_regular_file h p =
     (\<exists>q \<in> set (ancestors p).
        case map_of (fs h) q of
          Some (File c) \<Rightarrow> True
        | Some Undecodable \<Rightarrow> True
        | _ \<Rightarrow> False)"

text \<open>\<open>os.path.exists(p)\<close>: false when the path cannot be resolved.\<close>

definition os_path_exists :: "host \<Rightarrow> string \<Rightarrow> bool" where
  "os_path_exists h p = (\<not> below_regular_file h p \<and> map_of (fs h) p \<noteq> None)"

definition os_listdir :: "host \<Rightarrow> string \<Rightarrow> error + string list" where
  "os_listdir h p =
     (if below_regular_file h p then Inl NotADirectoryError
      else
        (case map_of (fs h) p of
           None \<Rightarrow> Inl FileNotFoundError
         | Some (File c) \<Rightarrow> Inl NotADirectoryError
         | Some Undecodable \<Rightarrow> Inl NotADirectoryError
         | Some (Dir entries) \<Rightarrow> Inr entries
         | Some Denied \<Rightarrow> Inl PermissionError))"

text \<open>
  \<open>open(p).read()\<close>: the file is opened in text mode, so reading decodes its content and
  raises UnicodeDecodeError when it does not decode.
\<close>

definition open_read :: "host \<Rightarrow> string \<Rightarrow> error + string" where
  "open_read h p =
     (if below_regular_file h p then Inl NotADirectoryError
      else
        (case map_of (fs h) p of
           None \<Rightarrow> Inl FileNotFoundError
         | Some (File c) \<Rightarrow> Inr c
         | Some Undecodable \<Rightarrow> Inl UnicodeDecodeError
         | Some (Dir entries) \<Rightarrow> Inl IsADirectoryError
         | Some Denied \<Rightarrow> Inl PermissionError))"

section \<open>Class \<open>IntelPowerGadget\<close>\<close>

record intel_power_gadget =
  log_file_path :: string
  pg_system :: string
  pg_duration :: nat
  pg_resolution :: nat
  cli :: string

text \<open>
  \<open>_log_values\<close>: runs the tool on Windows and macOS and warns about a non-zero exit
  status; does nothing on another system. The result is the list of events logged.
\<close>

definition log_values :: "host \<Rightarrow> intel_power_gadget \<Rightarrow> log_event list" where
  "log_values h self =
     (if startswith (pg_system self) ''win'' then
        (let returncode = subprocess_call h
               (ArgList [cli self, ''-duration'', str_nat (pg_duration self),
                         ''-resolution'', str_nat (pg_resolution self),
                         ''-file'', log_file_path self])
         in if returncode \<noteq> 0 then [Warning_returncode returncode] else [])
      else if startswith (pg_system self) ''darwin'' then
        (let returncode = subprocess_call h
               (ShellString ([CHR 0x27] @ cli self @ [CHR 0x27] @ '' -duration ''
                  @ str_nat (pg_duration self) @ '' -resolution ''
                  @ str_nat (pg_resolution self) @ '' -file '' @ log_file_path self
                  @ '' > /dev/null''))
         in if returncode \<noteq> 0 then [Warning_returncode returncode] else [])
      else [])"

text \<open>\<open>cpu_data.columns\<close>, \<open>cpu_data[col_name]\<close> and the number of rows.\<close>

definition columns :: "data_frame \<Rightarrow> string list" where
  "columns df = map fst df"

definition getitem :: "data_frame \<Rightarrow> string \<Rightarrow> error + cell list" where
  "getitem df col_name = (case map_of df col_name of None \<Rightarrow> Inl KeyError | Some vs \<Rightarrow> Inr vs)"

definition nrows :: "data_frame \<Rightarrow> nat" where
  "nrows df = (case df of [] \<Rightarrow> 0 | (c, vs) # _ \<Rightarrow> length vs)"

text \<open>\<open>dropna()\<close>: the rows without a missing value in any column are kept, in order.\<close>

definition kept_rows :: "data_frame \<Rightarrow> nat list" where
  "kept_rows df = filter (\<lambda>i. \<forall>(c, vs) \<in> set df. vs ! i \<noteq> NaN) [0..<nrows df]"

definition dropna :: "data_frame \<Rightarrow> data_frame" where
  "dropna df = map (\<lambda>(c, vs). (c, map (\<lambda>i. vs ! i) (kept_rows df))) df"

text \<open>\<open>series.iloc[-1]\<close>: the last cell; IndexError on an empty series.\<close>

definition iloc_last :: "cell list \<Rightarrow> error + cell" where
  "iloc_last vs = (if vs = [] then Inl IndexError else Inr (last vs))"

text \<open>
  \<open>series.mean()\<close>: the sum of the numbers divided by their count, missing values being
  skipped; \<open>NaN\<close> when there is no number.
\<close>

definition numbers :: "cell list \<Rightarrow> rat list" where
  "numbers vs = concat (map (\<lambda>v. case v of NaN \<Rightarrow> [] | Num x \<Rightarrow> [x]) vs)"

definition mean :: "cell list \<Rightarrow> cell" where
  "mean vs =
     (let xs = numbers vs
      in if xs = [] then NaN else Num (sum_list xs / of_nat (length xs)))"

text \<open>The three clock columns that \<open>get_cpu_details\<close> skips.\<close>

definition excluded_columns :: "string list" where
  "excluded_columns = [''System Time'', ''Elapsed Time (sec)'', ''RDTSC'']"

text \<open>
  The loop over the columns in \<open>get_cpu_details\<close>. The dictionary \<open>cpu_details\<close> is an
  association list in insertion order; an assignment to a key that is present replaces
  its value in place. An exception leaves the loop with the dictionary as filled so far.
\<close>

fun aggregate_columns ::
  "data_frame \<Rightarrow> string list \<Rightarrow> (string \<times> cell) list \<Rightarrow> (string \<times> cell) list \<times> error option"
where
  "aggregate_columns cpu_data [] cpu_details = (cpu_details, None)"
| "aggregate_columns cpu_data (col_name # rest) cpu_details =
     (if col_name \<in> set excluded_columns then
        aggregate_columns cpu_data rest cpu_details
      else
        (case getitem cpu_data col_name of
           Inl e \<Rightarrow> (cpu_details, Some e)
         | Inr series \<Rightarrow>
             if contains col_name ''Cumulative'' then
               (case iloc_last series of
                  Inl e \<Rightarrow> (cpu_details, Some e)
                | Inr v \<Rightarrow> aggregate_columns cpu_data rest (AList.update col_name v cpu_details))
             else
               aggregate_columns cpu_data rest (AList.update col_name (mean series) cpu_details)))"

text \<open>
  \<open>IntelPowerGadget.get_cpu_details\<close>: the dictionary and the events logged. Reading the
  log, dropping rows and the loop are inside the \<open>try\<close>: their exception is logged and
  the dictionary is returned as it is.
\<close>

definition IntelPowerGadget_get_cpu_details ::
  "host \<Rightarrow> intel_power_gadget \<Rightarrow> (string \<times> cell) list \<times> log_event list" where
  "IntelPowerGadget_get_cpu_details h self =
     (let logged = log_values h self
      in case read_csv h (log_file_path self) of
           Inl e \<Rightarrow> ([], logged @ [Info_unable_to_read_log (log_file_path self) e])
         | Inr df \<Rightarrow>
             (let cpu_data = dropna df
              in case aggregate_columns cpu_data (columns cpu_data) [] of
                   (cpu_details, None) \<Rightarrow> (cpu_details, logged)
                 | (cpu_details, Some e) \<Rightarrow>
                     (cpu_details, logged @ [Info_unable_to_read_log (log_file_path self) e])))"

section \<open>Class \<open>IntelRAPL\<close>\<close>

text \<open>
  Modelled from the spec: class \<open>RAPLFile\<close> of \<open>codecarbon/core/rapl.py\<close>, which is not
  part of the sources at hand. The spec describes it as the energy counter source: a
  name, a source path, a start value and an end value (unset at first), the elapsed
  delay, and a power measurement that is defined once both values are recorded.
\<close>

record rapl_file =
  name :: string
  source_path :: string
  start_value :: "rat option"
  end_value :: "rat option"
  elapsed_delay :: "rat option"
  power_measurement :: "rat option"

definition RAPLFile :: "string \<Rightarrow> string \<Rightarrow> rapl_file" where
  "RAPLFile nm p =
     \<lparr>name = nm, source_path = p, start_value = None, end_value = None,
      elapsed_delay = None, power_measurement = None\<rparr>"

text \<open>
  Modelled from the spec: \<open>start()\<close> records the current counter value as the start
  value, and fails with ReadFailure when the counter cannot be read.
\<close>

definition rapl_start :: "host \<Rightarrow> rapl_file \<Rightarrow> error + rapl_file" where
  "rapl_start h rf =
     (case map_of (energy_before h) (source_path rf) of
        None \<Rightarrow> Inl ReadFailure
      | Some v \<Rightarrow> Inr (rf\<lparr>start_value := Some v\<rparr>))"

text \<open>
  Modelled from the spec: the energy consumed between two readings in microjoules,
  \<open>end - start\<close>, or \<open>(max_range - start) + end\<close> when the counter decreased and its range
  is known, and absent when it decreased and the range is not known; the power in watts is
  that energy divided by the delay in seconds and by \<open>10\<^sup>6\<close>.
\<close>

definition energy_delta :: "rat option \<Rightarrow> rat \<Rightarrow> rat \<Rightarrow> rat option" where
  "energy_delta max_range s e =
     (if s \<le> e then Some (e - s)
      else (case max_range of None \<Rightarrow> None | Some r \<Rightarrow> Some ((r - s) + e)))"

text \<open>
  Modelled from the spec: \<open>stop(delay)\<close> records the current counter value as the end
  value, stores the delay and computes the power measurement.
\<close>

definition rapl_end :: "host \<Rightarrow> rat \<Rightarrow> rapl_file \<Rightarrow> error + rapl_file" where
  "rapl_end h d rf =
     (case map_of (energy_after h) (source_path rf) of
        None \<Rightarrow> Inl ReadFailure
      | Some v \<Rightarrow>
          Inr (rf\<lparr>end_value := Some v, elapsed_delay := Some d,
                  power_measurement :=
                    (case start_value rf of
                       None \<Rightarrow> None
                     | Some s \<Rightarrow>
                         (case energy_delta (map_of (max_energy_range h) (source_path rf)) s v of
                            None \<Rightarrow> None
                          | Some uj \<Rightarrow> Some (uj / d / 1000000)))\<rparr>))"

record intel_rapl =
  lin_rapl_dir :: string
  rapl_system :: string
  rapl_delay :: rat
  rapl_files :: "rapl_file list"

definition is_platform_supported :: "intel_rapl \<Rightarrow> bool" where
  "is_platform_supported self = startswith (rapl_system self) ''lin''"

text \<open>
  The loop of \<open>_fetch_rapl_files\<close> over the kept entries, with the counter \<open>i\<close> of the
  package domains seen so far. Opening the \<open>name\<close> file may raise.
\<close>

fun fetch_loop :: "host \<Rightarrow> string list \<Rightarrow> nat \<Rightarrow> intel_rapl \<Rightarrow> error + intel_rapl" where
  "fetch_loop h [] i self = Inr self"
| "fetch_loop h (file # files) i self =
     (let p = os_path_join (lin_rapl_dir self) [file, ''name'']
      in case open_read h p of
           Inl e \<Rightarrow> Inl e
         | Inr content \<Rightarrow>
             (let nm = strip content;
                  energy = os_path_join (lin_rapl_dir self) [file, ''energy_uj'']
              in if contains nm ''package'' then
                   fetch_loop h files (i + 1)
                     (self\<lparr>rapl_files := rapl_files self
                          @ [RAPLFile (''Processor Power_'' @ str_nat i @ ''(Watt)'') energy]\<rparr>)
                 else
                   fetch_loop h files i
                     (self\<lparr>rapl_files := rapl_files self @ [RAPLFile nm energy]\<rparr>)))"

definition fetch_rapl_files :: "host \<Rightarrow> intel_rapl \<Rightarrow> error + intel_rapl" where
  "fetch_rapl_files h self =
     (case os_listdir h (lin_rapl_dir self) of
        Inl e \<Rightarrow> Inl e
      | Inr entries \<Rightarrow>
          (let files = filter (\<lambda>x. CHR '':'' \<in> set x) entries
           in fetch_loop h files 0 self))"

definition setup_rapl :: "host \<Rightarrow> intel_rapl \<Rightarrow> error + intel_rapl" where
  "setup_rapl h self =
     (if is_platform_supported self then
        (if os_path_exists h (lin_rapl_dir self) then fetch_rapl_files h self
         else Inl FileNotFoundError)
      else Inl SystemError)"

text \<open>\<open>IntelRAPL.__init__\<close>; the default directory is \<open>/sys/class/powercap/intel-rapl\<close>.\<close>

definition IntelRAPL_init :: "host \<Rightarrow> string \<Rightarrow> error + intel_rapl" where
  "IntelRAPL_init h rapl_dir =
     setup_rapl h
       \<lparr>lin_rapl_dir = rapl_dir, rapl_system = lower (platform h), rapl_delay = 1 / 100,
        rapl_files = []\<rparr>"

definition is_rapl_available :: "host \<Rightarrow> bool \<times> log_event list" where
  "is_rapl_available h =
     (case IntelRAPL_init h ''/sys/class/powercap/intel-rapl'' of
        Inr self \<Rightarrow> (True, [])
      | Inl e \<Rightarrow> (False, [Debug_rapl_unavailable e]))"

text \<open>
  \<open>IntelRAPL.get_cpu_details\<close>: the dictionary (an association list in insertion order),
  the object with its counters as the calls left them, and the events logged. The
  dictionary is filled only after every counter was started and stopped, so an exception
  in either pass leaves it empty.
\<close>

definition IntelRAPL_get_cpu_details ::
  "host \<Rightarrow> intel_rapl \<Rightarrow> (string \<times> rat option) list \<times> intel_rapl \<times> log_event list" where
  "IntelRAPL_get_cpu_details h self =
     (case for_each (rapl_start h) (rapl_files self) of
        (started, Some e) \<Rightarrow> ([], self\<lparr>rapl_files := started\<rparr>, [Info_unable_to_read_rapl e])
      | (started, None) \<Rightarrow>
          (case for_each (rapl_end h (rapl_delay self)) started of
             (stopped, Some e) \<Rightarrow>
               ([], self\<lparr>rapl_files := stopped\<rparr>, [Info_unable_to_read_rapl e])
           | (stopped, None) \<Rightarrow>
               (foldl (\<lambda>cpu_details rapl_file.
                         AList.update (name rapl_file) (power_measurement rapl_file) cpu_details)
                      [] stopped,
                self\<lparr>rapl_files := stopped\<rparr>, [])))"

section \<open>Class \<open>TDP\<close>: matching a detected model against the dataset\<close>

definition THRESHOLD_DIRECT :: int where
  "THRESHOLD_DIRECT = 100"

definition THRESHOLD_TOKEN_SET :: int where
  "THRESHOLD_TOKEN_SET = 100"

definition get_cpus :: "cpu_df \<Rightarrow> nat list \<Rightarrow> error + string list" where
  "get_cpus cpu_df cpu_idxs = map_raise (\<lambda>idx. loc (map Name cpu_df) idx) cpu_idxs"

definition get_direct_matches :: "fuzz \<Rightarrow> string \<Rightarrow> cpu_df \<Rightarrow> int list" where
  "get_direct_matches fz moodel cpu_df =
     (let model_l = lower moodel
      in map (\<lambda>cpu. ratio fz model_l (lower cpu)) (map Name cpu_df))"

definition get_token_set_matches :: "fuzz \<Rightarrow> string \<Rightarrow> cpu_df \<Rightarrow> int list" where
  "get_token_set_matches fz model cpu_df =
     map (\<lambda>cpu. token_set_ratio fz model cpu) (map Name cpu_df)"

definition get_single_direct_match :: "int list \<Rightarrow> int \<Rightarrow> cpu_df \<Rightarrow> error + string" where
  "get_single_direct_match ratios max_ratio cpu_df =
     (case py_index ratios max_ratio of
        Inl e \<Rightarrow> Inl e
      | Inr idx \<Rightarrow> iloc (map Name cpu_df) idx)"

definition get_max_idxs :: "int list \<Rightarrow> int \<Rightarrow> nat list" where
  "get_max_idxs ratios max_ratio =
     map fst (filter (\<lambda>(idx, r). r = max_ratio) (enumerate 0 ratios))"

text \<open>
  \<open>_get_matching_cpu\<close>. Both score lists and both maxima are computed before the first
  test, as in the source, so an empty dataset raises ValueError.
\<close>

definition get_matching_cpu :: "fuzz \<Rightarrow> string \<Rightarrow> cpu_df \<Rightarrow> bool \<Rightarrow> error + string option" where
  "get_matching_cpu fz model_raw cpu_df greedy =
     (let ratios_direct = get_direct_matches fz model_raw cpu_df;
          ratios_token_set = get_token_set_matches fz model_raw cpu_df
      in case py_max ratios_direct of
           Inl e \<Rightarrow> Inl e
         | Inr max_ratio_direct \<Rightarrow>
        (case py_max ratios_token_set of
           Inl e \<Rightarrow> Inl e
         | Inr max_ratio_token_set \<Rightarrow>
             if max_ratio_direct \<ge> THRESHOLD_DIRECT then
               (case get_single_direct_match ratios_direct max_ratio_direct cpu_df of
                  Inl e \<Rightarrow> Inl e
                | Inr cpu_matched \<Rightarrow> Inr (Some cpu_matched))
             else if max_ratio_token_set < THRESHOLD_TOKEN_SET then Inr None
             else
               (let cpu_idxs = get_max_idxs ratios_token_set max_ratio_token_set
                in case get_cpus cpu_df cpu_idxs of
                     Inl e \<Rightarrow> Inl e
                   | Inr cpu_machings \<Rightarrow>
                       if (cpu_machings \<noteq> [] \<and> length cpu_machings = 1) \<or> greedy then
                         (case cpu_machings of
                            [] \<Rightarrow> Inl IndexError
                          | cpu_matched # _ \<Rightarrow> Inr (Some cpu_matched))
                       else Inr None)))"

text \<open>
  \<open>_get_cpu_constant_power\<close>: the rows whose \<open>Name\<close> equals the match, the \<open>TDP\<close> of the
  first of them; \<open>values[0]\<close> raises IndexError when no row is left.
\<close>

definition get_cpu_constant_power :: "string \<Rightarrow> cpu_df \<Rightarrow> error + int" where
  "get_cpu_constant_power match cpu_power_df =
     (case map TDP (filter (\<lambda>row. Name row = match) cpu_power_df) of
        [] \<Rightarrow> Inl IndexError
      | v # _ \<Rightarrow> Inr v)"

text \<open>
  \<open>_get_cpu_power_from_registry\<close>: the matching is called without a \<open>greedy\<close> argument,
  so with the default \<open>False\<close>. \<open>if cpu_matching:\<close> is false for \<open>None\<close> and for the
  empty string.
\<close>

definition get_cpu_power_from_registry :: "fuzz \<Rightarrow> host \<Rightarrow> string \<Rightarrow> error + int option" where
  "get_cpu_power_from_registry fz h cpu_model_raw =
     (let cpu_power_df = cpu_power_data h
      in case get_matching_cpu fz cpu_model_raw cpu_power_df False of
           Inl e \<Rightarrow> Inl e
         | Inr cpu_matching \<Rightarrow>
             (case cpu_matching of
                None \<Rightarrow> Inr None
              | Some m \<Rightarrow>
                  if m \<noteq> [] then
                    (case get_cpu_constant_power m cpu_power_df of
                       Inl e \<Rightarrow> Inl e
                     | Inr pw \<Rightarrow> Inr (Some pw))
                  else Inr None))"

text \<open>
  \<open>_detect_cpu_model\<close>: \<open>None\<close> when the dictionary is empty, otherwise its
  \<open>brand_raw\<close> entry, the empty string when there is none.
\<close>

definition detect_cpu_model :: "host \<Rightarrow> string option" where
  "detect_cpu_model h =
     (let cpu_info = cpu_info h
      in if cpu_info \<noteq> [] then
           Some (case map_of cpu_info ''brand_raw'' of None \<Rightarrow> [] | Some v \<Rightarrow> v)
         else None)"

text \<open>
  The truth value Python gives to the power in \<open>if power:\<close>: false for \<open>None\<close> and
  for 0.
\<close>

fun truthy_power :: "int option \<Rightarrow> bool" where
  "truthy_power None = False"
| "truthy_power (Some p) = (p \<noteq> 0)"

text \<open>
  \<open>_main\<close>: the pair (model, power) with the events logged. \<open>if cpu_model_detected:\<close>
  is false for \<open>None\<close> and for the empty string.
\<close>

definition TDP_main :: "fuzz \<Rightarrow> host \<Rightarrow> error + ((string \<times> int option) \<times> log_event list)" where
  "TDP_main fz h =
     (case detect_cpu_model h of
        None \<Rightarrow> Inr ((''Unknown'', None), [Warning_undetected])
      | Some cpu_model_detected \<Rightarrow>
          if cpu_model_detected \<noteq> [] then
            (case get_cpu_power_from_registry fz h cpu_model_detected of
               Inl e \<Rightarrow> Inl e
             | Inr pw \<Rightarrow>
                 if truthy_power pw then
                   Inr ((cpu_model_detected, pw), [Debug_detected cpu_model_detected pw])
                 else
                   Inr ((cpu_model_detected, None), [Warning_unknown_model cpu_model_detected]))
          else Inr ((''Unknown'', None), [Warning_undetected]))"

text \<open>\<open>TDP.__init__\<close>: the object holds the pair computed by \<open>_main\<close>.\<close>

record tdp_object =
  model :: string
  tdp :: "int option"

definition TDP_init :: "fuzz \<Rightarrow> host \<Rightarrow> error + (tdp_object \<times> log_event list)" where
  "TDP_init fz h =
     (case TDP_main fz h of
        Inl e \<Rightarrow> Inl e
      | Inr ((m, t), logged) \<Rightarrow> Inr (\<lparr>model = m, tdp = t\<rparr>, logged))"

section \<open>Concrete inputs for running the model\<close>

text \<open>
  A stand-in for the scoring library on which the model can be evaluated: identical strings
  score 100 and all others 0 for \<open>ratio\<close>; strings with the same set of space-separated
  tokens score 100 and all others 0 for \<open>token_set_ratio\<close>.
\<close>

fun tokens_from :: "string \<Rightarrow> string \<Rightarrow> string list" where
  "tokens_from cur [] = (if cur = [] then [] else [cur])"
| "tokens_from cur (c # cs) =
     (if c = CHR '' '' then (if cur = [] then tokens_from [] cs else cur # tokens_from [] cs)
      else tokens_from (cur @ [c]) cs)"

definition sample_fuzz :: fuzz where
  "sample_fuzz =
     \<lparr>ratio = (\<lambda>a b. if a = b then 100 else 0),
      token_set_ratio = (\<lambda>a b. if set (tokens_from [] a) = set (tokens_from [] b) then 100 else 0)\<rparr>"

text \<open>A table in which two rows carry the same name with different TDPs.\<close>

definition sample_df :: cpu_df where
  "sample_df =
     [\<lparr>Name = ''AMD Ryzen 7'', TDP = 65\<rparr>,
      \<lparr>Name = ''Intel Core i7'', TDP = 45\<rparr>,
      \<lparr>Name = ''Intel Core i7'', TDP = 95\<rparr>]"

text \<open>
  A Linux host with two processor packages and one memory domain under the counter
  directory, and a macOS host; both report the same processor and hold the same table.
\<close>

definition sample_cpu_df :: cpu_df where
  "sample_cpu_df =
     [\<lparr>Name = ''Intel(R) Core(TM) i7-9750H CPU @ 2.60GHz'', TDP = 45\<rparr>,
      \<lparr>Name = ''AMD Opteron 3280'', TDP = 0\<rparr>]"

definition linux_host :: host where
  "linux_host =
     \<lparr>platform = ''linux'',
      fs = [(''/rapl'', Dir [''intel-rapl:0'', ''enabled'', ''intel-rapl:1'', ''intel-rapl:1:0'']),
            (''/rapl/intel-rapl:0/name'', File ''package-0\<newline>''),
            (''/rapl/intel-rapl:1/name'', File ''package-1\<newline>''),
            (''/rapl/intel-rapl:1:0/name'', File ''dram\<newline>'')],
      energy_before = [(''/rapl/intel-rapl:0/energy_uj'', 1000),
                       (''/rapl/intel-rapl:1/energy_uj'', 262143000),
                       (''/rapl/intel-rapl:1:0/energy_uj'', 500)],
      energy_after = [(''/rapl/intel-rapl:0/energy_uj'', 151000),
                      (''/rapl/intel-rapl:1/energy_uj'', 100000),
                      (''/rapl/intel-rapl:1:0/energy_uj'', 20500)],
      max_energy_range = [(''/rapl/intel-rapl:0/energy_uj'', 262143328),
                          (''/rapl/intel-rapl:1/energy_uj'', 262143328),
                          (''/rapl/intel-rapl:1:0/energy_uj'', 65712999)],
      subprocess_call = (\<lambda>c. 0),
      read_csv = (\<lambda>p. Inl FileNotFoundError),
      cpu_info = [(''arch'', ''X86_64''),
                  (''brand_raw'', ''Intel(R) Core(TM) i7-9750H CPU @ 2.60GHz'')],
      cpu_power_data = sample_cpu_df\<rparr>"

text \<open>
  The log of the macOS host: three samples and a trailing line that has no value in the
  numeric columns.
\<close>

definition sample_log :: data_frame where
  "sample_log =
     [(''Elapsed Time (sec)'', [Num (1 / 10), Num (2 / 10), Num (3 / 10), Num 1]),
      (''RDTSC'', [Num 11, Num 22, Num 33, NaN]),
      (''Processor Power_0(Watt)'', [Num 10, Num 20, Num 30, NaN]),
      (''Cumulative Processor Energy_0(Joules)'', [Num 1, Num 2, Num 5, NaN])]"

definition mac_host :: host where
  "mac_host =
     \<lparr>platform = ''darwin'',
      fs = [],
      energy_before = [],
      energy_after = [],
      max_energy_range = [],
      subprocess_call = (\<lambda>c. 0),
      read_csv = (\<lambda>p. if p = ''./intel_power_gadget_log.csv'' then Inr sample_log
                      else Inl FileNotFoundError),
      cpu_info = [(''brand_raw'', ''Intel(R) Core(TM) i7-9750H CPU @ 2.60GHz'')],
      cpu_power_data = sample_cpu_df\<rparr>"

definition sample_gadget :: intel_power_gadget where
  "sample_gadget =
     \<lparr>log_file_path = ''./intel_power_gadget_log.csv'', pg_system = ''darwin'',
      pg_duration = 1, pg_resolution = 100, cli = ''PowerLog''\<rparr>"

text \<open>A log that holds the header line only, and a host whose tool wrote that log.\<close>

definition header_only_log :: data_frame where
  "header_only_log =
     [(''Elapsed Time (sec)'', []),
      (''Cumulative Processor Energy_0(Joules)'', []),
      (''Processor Power_0(Watt)'', [])]"

definition header_only_host :: host where
  "header_only_host = mac_host\<lparr>read_csv := (\<lambda>p. Inr header_only_log)\<rparr>"

text \<open>A Linux host on which the path given as counter directory is a regular file.\<close>

definition file_root_host :: host where
  "file_root_host = linux_host\<lparr>fs := [(''/rapl'', File '''')]\<rparr>"

text \<open>
  Linux hosts on which the counter directory lists one domain entry, whose \<open>name\<close> file
  does not decode on the first, and which is itself a regular file on the second.
\<close>

definition undecodable_name_host :: host where
  "undecodable_name_host =
     linux_host\<lparr>fs := [(''/rapl'', Dir [''intel-rapl:0'']),
                      (''/rapl/intel-rapl:0/name'', Undecodable)]\<rparr>"

definition file_entry_host :: host where
  "file_entry_host =
     linux_host\<lparr>fs := [(''/rapl'', Dir [''intel-rapl:0'']),
                      (''/rapl/intel-rapl:0'', File ''package-0'')]\<rparr>"

text \<open>
  Hosts whose processor matches a row with a TDP of 0, matches no row, and matches two
  rows equally well under the token-set scores.
\<close>

definition zero_tdp_host :: host where
  "zero_tdp_host = linux_host\<lparr>cpu_info := [(''brand_raw'', ''amd opteron 3280'')]\<rparr>"

definition unknown_cpu_host :: host where
  "unknown_cpu_host = linux_host\<lparr>cpu_info := [(''brand_raw'', ''Zilog Z80'')]\<rparr>"

definition tie_host :: host where
  "tie_host =
     linux_host\<lparr>cpu_info := [(''brand_raw'', ''i7 Core Intel'')], cpu_power_data := sample_df\<rparr>"

section \<open>Auxiliary facts about the primitives and the two matching stages\<close>

lemma fold_max_Max: "fold max ys (x::int) = Max (set (x # ys))"
  by (simp only: Max.set_eq_fold)

lemma py_max_Max: "xs \<noteq> [] \<Longrightarrow> py_max xs = Inr (Max (set xs))"
  by (cases xs) (simp_all add: py_max_def fold_max_Max del: set_simps)

lemma py_max_Inr_iff: "py_max xs = Inr m \<longleftrightarrow> xs \<noteq> [] \<and> m = Max (set xs)"
  by (cases xs) (auto simp: py_max_def fold_max_Max simp del: set_simps)

lemma py_index_first:
  "v \<in> set xs \<Longrightarrow> \<exists>i. py_index xs v = Inr i \<and> i < length xs \<and> xs ! i = v \<and> (\<forall>j<i. xs ! j \<noteq> v)"
proof (induction xs)
  case Nil
  then show ?case by simp
next
  case (Cons x xs)
  show ?case
  proof (cases "x = v")
    case True
    then show ?thesis by simp
  next
    case False
    with Cons.prems have "v \<in> set xs" by simp
    from Cons.IH [OF this] obtain i where
      i: "py_index xs v = Inr i" "i < length xs" "xs ! i = v" "\<forall>j<i. xs ! j \<noteq> v" by blast
    have "\<forall>j<Suc i. (x # xs) ! j \<noteq> v"
      using False i(4) by (auto simp: nth_Cons split: nat.splits)
    with False i show ?thesis by simp
  qed
qed

lemma get_max_idxs_filter_aux:
  "map fst (filter (\<lambda>(idx, r). r = m) (enumerate n rs)) = filter (\<lambda>i. rs ! (i - n) = m) [n..<n + length rs]"
proof (induction rs arbitrary: n)
  case Nil
  then show ?case by simp
next
  case (Cons r rs)
  have tl: "filter (\<lambda>i. (r # rs) ! (i - n) = m) [Suc n..<Suc n + length rs]
        = filter (\<lambda>i. rs ! (i - Suc n) = m) [Suc n..<Suc n + length rs]"
  proof (rule filter_cong)
    fix i assume "i \<in> set [Suc n..<Suc n + length rs]"
    then have "i - n = Suc (i - Suc n)" by auto
    then show "((r # rs) ! (i - n) = m) = (rs ! (i - Suc n) = m)" by simp
  qed simp
  have upt: "[n..<n + length (r # rs)] = n # [Suc n..<Suc n + length rs]"
    by (simp add: upt_conv_Cons del: upt_Suc)
  have "filter (\<lambda>i. (r # rs) ! (i - n) = m) [n..<n + length (r # rs)]
        = (if r = m then [n] else []) @ filter (\<lambda>i. (r # rs) ! (i - n) = m) [Suc n..<Suc n + length rs]"
    unfolding upt by simp
  also have "\<dots> = (if r = m then [n] else []) @ map fst (filter (\<lambda>(idx, r). r = m) (enumerate (Suc n) rs))"
    unfolding tl Cons.IH [of "Suc n"] ..
  also have "\<dots> = map fst (filter (\<lambda>(idx, r). r = m) (enumerate n (r # rs)))"
    by simp
  finally show ?case by simp
qed

lemma get_max_idxs_filter:
  "get_max_idxs rs m = filter (\<lambda>i. rs ! i = m) [0..<length rs]"
  using get_max_idxs_filter_aux [of m 0 rs] by (simp add: get_max_idxs_def)

lemma map_raise_Inr:
  "(\<And>x. x \<in> set xs \<Longrightarrow> f x = Inr (g x)) \<Longrightarrow> map_raise f xs = Inr (map g xs)"
  by (induction xs) simp_all

lemma get_cpus_in_range:
  "\<forall>i \<in> set idxs. i < length cpu_df \<Longrightarrow>
   get_cpus cpu_df idxs = Inr (map (\<lambda>i. Name (cpu_df ! i)) idxs)"
  unfolding get_cpus_def by (rule map_raise_Inr) (simp add: loc_def)

lemma get_cpu_constant_power_first:
  "n \<in> set (map Name cpu_df) \<Longrightarrow>
   \<exists>row \<in> set cpu_df. Name row = n \<and> get_cpu_constant_power n cpu_df = Inr (TDP row)"
proof -
  assume "n \<in> set (map Name cpu_df)"
  then have "filter (\<lambda>row. Name row = n) cpu_df \<noteq> []"
    by (auto simp: filter_empty_conv)
  then obtain r rs where f: "filter (\<lambda>row. Name row = n) cpu_df = r # rs"
    by (cases "filter (\<lambda>row. Name row = n) cpu_df") auto
  then have "r \<in> set (filter (\<lambda>row. Name row = n) cpu_df)" by simp
  then have "r \<in> set cpu_df" "Name r = n" by auto
  moreover have "get_cpu_constant_power n cpu_df = Inr (TDP r)"
    by (simp add: get_cpu_constant_power_def f)
  ultimately show ?thesis by blast
qed

lemma direct_stage_result:
  assumes ne: "cpu_df \<noteq> []"
    and hit: "THRESHOLD_DIRECT \<le> Max (set (get_direct_matches fz model_raw cpu_df))"
  shows "\<exists>i<length cpu_df.
           get_matching_cpu fz model_raw cpu_df greedy = Inr (Some (Name (cpu_df ! i)))
         \<and> get_direct_matches fz model_raw cpu_df ! i = Max (set (get_direct_matches fz model_raw cpu_df))
         \<and> (\<forall>j<i. get_direct_matches fz model_raw cpu_df ! j \<noteq> Max (set (get_direct_matches fz model_raw cpu_df)))"
proof -
  let ?rs = "get_direct_matches fz model_raw cpu_df"
  let ?ts = "get_token_set_matches fz model_raw cpu_df"
  have len: "length ?rs = length cpu_df" by (simp add: get_direct_matches_def)
  have rne: "?rs \<noteq> []" using ne by (simp add: get_direct_matches_def)
  have tne: "?ts \<noteq> []" using ne by (simp add: get_token_set_matches_def)
  have "Max (set ?rs) \<in> set ?rs" using rne by (intro Max_in) auto
  from py_index_first [OF this] obtain i where
    i: "py_index ?rs (Max (set ?rs)) = Inr i" "i < length ?rs" "?rs ! i = Max (set ?rs)"
       "\<forall>j<i. ?rs ! j \<noteq> Max (set ?rs)" by blast
  have "get_matching_cpu fz model_raw cpu_df greedy = Inr (Some (Name (cpu_df ! i)))"
    using i(1,2) hit len
    by (simp add: get_matching_cpu_def py_max_Max [OF rne] py_max_Max [OF tne]
          get_single_direct_match_def iloc_def)
  with i len show ?thesis by auto
qed

lemma token_stage_result:
  assumes ne: "cpu_df \<noteq> []"
    and miss: "Max (set (get_direct_matches fz model_raw cpu_df)) < THRESHOLD_DIRECT"
  shows "get_matching_cpu fz model_raw cpu_df greedy =
     (let ts = get_token_set_matches fz model_raw cpu_df; m = Max (set ts);
          idxs = filter (\<lambda>i. ts ! i = m) [0..<length cpu_df]
      in if m < THRESHOLD_TOKEN_SET then Inr None
         else if length idxs = 1 \<or> greedy then Inr (Some (Name (cpu_df ! hd idxs)))
         else Inr None)"
proof -
  let ?rs = "get_direct_matches fz model_raw cpu_df"
  let ?ts = "get_token_set_matches fz model_raw cpu_df"
  let ?m = "Max (set ?ts)"
  let ?idxs = "filter (\<lambda>i. ?ts ! i = ?m) [0..<length cpu_df]"
  have len: "length ?ts = length cpu_df" by (simp add: get_token_set_matches_def)
  have rne: "?rs \<noteq> []" using ne by (simp add: get_direct_matches_def)
  have tne: "?ts \<noteq> []" using ne by (simp add: get_token_set_matches_def)
  have idxs: "get_max_idxs ?ts ?m = ?idxs" by (simp add: get_max_idxs_filter len)
  have "?m \<in> set ?ts" using tne by (intro Max_in) auto
  then obtain k where "k < length ?ts" "?ts ! k = ?m" by (auto simp: in_set_conv_nth)
  then have "k \<in> set ?idxs" using len by simp
  then have ine: "?idxs \<noteq> []" by (metis empty_iff empty_set)
  have cp: "get_cpus cpu_df ?idxs = Inr (map (\<lambda>i. Name (cpu_df ! i)) ?idxs)"
    by (rule get_cpus_in_range) simp
  obtain a as where a: "?idxs = a # as" using ine by (cases ?idxs) auto
  have cp': "get_cpus cpu_df (get_max_idxs ?ts ?m) = Inr (Name (cpu_df ! a) # map (\<lambda>i. Name (cpu_df ! i)) as)"
    using cp a by (simp add: idxs)
  have lhs: "get_matching_cpu fz model_raw cpu_df greedy =
      (if ?m < THRESHOLD_TOKEN_SET then Inr None
       else if as = [] \<or> greedy then Inr (Some (Name (cpu_df ! a))) else Inr None)"
    using miss
    by (simp add: get_matching_cpu_def py_max_Max [OF rne] py_max_Max [OF tne] cp' Let_def)
  show ?thesis
    unfolding lhs Let_def a by simp
qed

section \<open>Auxiliary facts about the aggregation of a log\<close>

lemma aggregate_columns_all:
  assumes "\<forall>c \<in> set cs. \<exists>vs. map_of cpu_data c = Some vs \<and> vs \<noteq> []"
  shows "\<exists>d'. aggregate_columns cpu_data cs d = (d', None)
      \<and> (\<forall>c. map_of d' c =
            (if c \<in> set cs \<and> c \<notin> set excluded_columns
             then (case map_of cpu_data c of
                     None \<Rightarrow> None
                   | Some vs \<Rightarrow> Some (if contains c ''Cumulative'' then last vs else mean vs))
             else map_of d c))"
  using assms
proof (induction cs arbitrary: d)
  case Nil
  then show ?case by simp
next
  case (Cons col_name rest)
  from Cons.prems obtain vs where vs: "map_of cpu_data col_name = Some vs" "vs \<noteq> []" by auto
  have rest: "\<forall>c \<in> set rest. \<exists>vs. map_of cpu_data c = Some vs \<and> vs \<noteq> []"
    using Cons.prems by simp
  show ?case
  proof (cases "col_name \<in> set excluded_columns")
    case True
    from Cons.IH [OF rest, of d] obtain d' where d': "aggregate_columns cpu_data rest d = (d', None)"
      "\<forall>c. map_of d' c =
            (if c \<in> set rest \<and> c \<notin> set excluded_columns
             then (case map_of cpu_data c of
                     None \<Rightarrow> None
                   | Some vs \<Rightarrow> Some (if contains c ''Cumulative'' then last vs else mean vs))
             else map_of d c)" by blast
    have "aggregate_columns cpu_data (col_name # rest) d = (d', None)"
      using True d'(1) by (simp)
    moreover have "\<forall>c. map_of d' c =
            (if c \<in> set (col_name # rest) \<and> c \<notin> set excluded_columns
             then (case map_of cpu_data c of
                     None \<Rightarrow> None
                   | Some vs \<Rightarrow> Some (if contains c ''Cumulative'' then last vs else mean vs))
             else map_of d c)"
      using True d'(2) by auto
    ultimately show ?thesis by blast
  next
    case False
    let ?v = "if contains col_name ''Cumulative'' then last vs else mean vs"
    let ?d = "AList.update col_name ?v d"
    from Cons.IH [OF rest, of ?d] obtain d' where d': "aggregate_columns cpu_data rest ?d = (d', None)"
      "\<forall>c. map_of d' c =
            (if c \<in> set rest \<and> c \<notin> set excluded_columns
             then (case map_of cpu_data c of
                     None \<Rightarrow> None
                   | Some vs \<Rightarrow> Some (if contains c ''Cumulative'' then last vs else mean vs))
             else map_of ?d c)" by blast
    have step: "aggregate_columns cpu_data (col_name # rest) d = aggregate_columns cpu_data rest ?d"
      using False vs by (simp add: getitem_def iloc_last_def)
    have "\<forall>c. map_of d' c =
            (if c \<in> set (col_name # rest) \<and> c \<notin> set excluded_columns
             then (case map_of cpu_data c of
                     None \<Rightarrow> None
                   | Some vs \<Rightarrow> Some (if contains c ''Cumulative'' then last vs else mean vs))
             else map_of d c)"
    proof
      fix c
      show "map_of d' c =
            (if c \<in> set (col_name # rest) \<and> c \<notin> set excluded_columns
             then (case map_of cpu_data c of
                     None \<Rightarrow> None
                   | Some vs \<Rightarrow> Some (if contains c ''Cumulative'' then last vs else mean vs))
             else map_of d c)"
      proof (cases "c = col_name")
        case True
        then show ?thesis using d'(2) [rule_format, of c] False vs
          by (simp add: update_conv')
      next
        case neq: False
        then show ?thesis using d'(2) [rule_format, of c]
          by (simp add: update_conv')
      qed
    qed
    with step d'(1) show ?thesis by simp
  qed
qed

lemma dropna_columns:
  assumes "(c, vs) \<in> set (dropna df)"
  shows "\<exists>xs. vs = map Num xs \<and> length xs = length (kept_rows df)"
proof -
  from assms obtain vs0 where vs0: "(c, vs0) \<in> set df" "vs = map (\<lambda>i. vs0 ! i) (kept_rows df)"
    by (auto simp: dropna_def)
  have "\<forall>i \<in> set (kept_rows df). vs0 ! i \<noteq> NaN"
    using vs0(1) by (auto simp: kept_rows_def)
  then have "\<forall>i \<in> set (kept_rows df). vs0 ! i = Num (case vs0 ! i of Num x \<Rightarrow> x | NaN \<Rightarrow> 0)"
    by (auto split: cell.splits)
  then have "vs = map Num (map (\<lambda>i. case vs0 ! i of Num x \<Rightarrow> x | NaN \<Rightarrow> 0) (kept_rows df))"
    unfolding vs0(2) by (simp add: comp_def)
  then show ?thesis by (metis length_map)
qed

lemma numbers_map_Num: "numbers (map Num xs) = xs"
  by (induction xs) (simp_all add: numbers_def)

lemma mean_map_Num: "xs \<noteq> [] \<Longrightarrow> mean (map Num xs) = Num (sum_list xs / of_nat (length xs))"
  by (simp add: mean_def numbers_map_Num)

section \<open>Auxiliary facts about the discovery and the sampling of the counters\<close>

lemma fetch_loop_dir:
  "fetch_loop h files i self = Inr self' \<Longrightarrow> lin_rapl_dir self' = lin_rapl_dir self"
proof (induction files arbitrary: i self)
  case Nil
  then show ?case by simp
next
  case (Cons fl files)
  then show ?case
    by (fastforce simp: Let_def split: sum.splits if_splits)
qed

lemma fetch_loop_error:
  "fetch_loop h files i self = Inl e \<Longrightarrow>
   \<exists>f \<in> set files. open_read h (os_path_join (lin_rapl_dir self) [f, ''name'']) = Inl e"
proof (induction files arbitrary: i self)
  case Nil
  then show ?case by simp
next
  case (Cons fl files)
  show ?case
  proof (cases "open_read h (os_path_join (lin_rapl_dir self) [fl, ''name''])")
    case (Inl e')
    with Cons.prems show ?thesis by simp
  next
    case (Inr content)
    let ?energy = "os_path_join (lin_rapl_dir self) [fl, ''energy_uj'']"
    let ?nm = "strip content"
    let ?rf = "if contains ?nm ''package''
               then RAPLFile (''Processor Power_'' @ str_nat i @ ''(Watt)'') ?energy
               else RAPLFile ?nm ?energy"
    let ?self = "self\<lparr>rapl_files := rapl_files self @ [?rf]\<rparr>"
    let ?i = "if contains ?nm ''package'' then i + 1 else i"
    have "fetch_loop h (fl # files) i self = fetch_loop h files ?i ?self"
      using Inr by (simp add: Let_def)
    with Cons.prems have "fetch_loop h files ?i ?self = Inl e" by simp
    from Cons.IH [OF this] show ?thesis by simp
  qed
qed

lemma fetch_loop_reads:
  "fetch_loop h files i self = Inr self' \<Longrightarrow>
   \<exists>contents. map (\<lambda>f. open_read h (os_path_join (lin_rapl_dir self) [f, ''name''])) files
                = map Inr contents"
proof (induction files arbitrary: i self)
  case Nil
  then show ?case by simp
next
  case (Cons fl files)
  show ?case
  proof (cases "open_read h (os_path_join (lin_rapl_dir self) [fl, ''name''])")
    case (Inl e')
    with Cons.prems show ?thesis by simp
  next
    case (Inr content)
    let ?energy = "os_path_join (lin_rapl_dir self) [fl, ''energy_uj'']"
    let ?nm = "strip content"
    let ?rf = "if contains ?nm ''package''
               then RAPLFile (''Processor Power_'' @ str_nat i @ ''(Watt)'') ?energy
               else RAPLFile ?nm ?energy"
    let ?self = "self\<lparr>rapl_files := rapl_files self @ [?rf]\<rparr>"
    let ?i = "if contains ?nm ''package'' then i + 1 else i"
    have "fetch_loop h (fl # files) i self = fetch_loop h files ?i ?self"
      using Inr by (simp add: Let_def)
    with Cons.prems have "fetch_loop h files ?i ?self = Inr self'" by simp
    from Cons.IH [OF this] obtain contents where
      "map (\<lambda>f. open_read h (os_path_join (lin_rapl_dir self) [f, ''name''])) files = map Inr contents"
      by auto
    with Inr have "map (\<lambda>f. open_read h (os_path_join (lin_rapl_dir self) [f, ''name''])) (fl # files)
          = map Inr (content # contents)" by simp
    then show ?thesis by blast
  qed
qed

lemma fetch_loop_labels:
  assumes "map (\<lambda>f. open_read h (os_path_join (lin_rapl_dir self) [f, ''name''])) files
             = map Inr contents"
  shows "\<exists>rfs. fetch_loop h files i self = Inr (self\<lparr>rapl_files := rapl_files self @ rfs\<rparr>)
       \<and> length rfs = length files
       \<and> (\<forall>k<length files.
            name (rfs ! k) =
              (if contains (map strip contents ! k) ''package''
               then ''Processor Power_''
                    @ str_nat (i + length (filter (\<lambda>n. contains n ''package'')
                                               (take k (map strip contents))))
                    @ ''(Watt)''
               else map strip contents ! k)
          \<and> source_path (rfs ! k) = os_path_join (lin_rapl_dir self) [files ! k, ''energy_uj''])"
  using assms
proof (induction files arbitrary: i self contents)
  case Nil
  then show ?case by simp
next
  case (Cons fl files)
  from Cons.prems obtain content rest where c: "contents = content # rest"
    "open_read h (os_path_join (lin_rapl_dir self) [fl, ''name'']) = Inr content"
    "map (\<lambda>f. open_read h (os_path_join (lin_rapl_dir self) [f, ''name''])) files = map Inr rest"
    by (cases contents) auto
  let ?energy = "os_path_join (lin_rapl_dir self) [fl, ''energy_uj'']"
  let ?nm = "strip content"
  let ?pk = "contains ?nm ''package''"
  let ?lab = "if ?pk then ''Processor Power_'' @ str_nat i @ ''(Watt)'' else ?nm"
  let ?rf = "RAPLFile ?lab ?energy"
  let ?self = "self\<lparr>rapl_files := rapl_files self @ [?rf]\<rparr>"
  let ?i = "if ?pk then i + 1 else i"
  have step: "fetch_loop h (fl # files) i self = fetch_loop h files ?i ?self"
    using c(2) by (simp add: Let_def)
  have dir: "lin_rapl_dir ?self = lin_rapl_dir self" by simp
  have prem: "map (\<lambda>f. open_read h (os_path_join (lin_rapl_dir ?self) [f, ''name''])) files
              = map Inr rest"
    using c(3) by simp
  from Cons.IH [OF prem, of ?i] obtain rfs where
    IH: "fetch_loop h files ?i ?self = Inr (?self\<lparr>rapl_files := rapl_files ?self @ rfs\<rparr>)
       \<and> length rfs = length files
       \<and> (\<forall>k<length files.
            name (rfs ! k) =
              (if contains (map strip rest ! k) ''package''
               then ''Processor Power_''
                    @ str_nat (?i + length (filter (\<lambda>n. contains n ''package'')
                                               (take k (map strip rest))))
                    @ ''(Watt)''
               else map strip rest ! k)
          \<and> source_path (rfs ! k) = os_path_join (lin_rapl_dir ?self) [files ! k, ''energy_uj''])"
    by (elim exE)
  from IH have r: "fetch_loop h files ?i ?self = Inr (?self\<lparr>rapl_files := rapl_files ?self @ rfs\<rparr>)"
    by (elim conjE)
  from IH have len: "length rfs = length files" by (elim conjE)
  have nth: "name (rfs ! k) =
              (if contains (map strip rest ! k) ''package''
               then ''Processor Power_''
                    @ str_nat (?i + length (filter (\<lambda>n. contains n ''package'')
                                               (take k (map strip rest))))
                    @ ''(Watt)''
               else map strip rest ! k)
          \<and> source_path (rfs ! k) = os_path_join (lin_rapl_dir self) [files ! k, ''energy_uj'']"
    if "k < length files" for k
    using IH [THEN conjunct2, THEN conjunct2, rule_format, OF that] unfolding dir .
  have res: "fetch_loop h (fl # files) i self
             = Inr (self\<lparr>rapl_files := rapl_files self @ (?rf # rfs)\<rparr>)"
    unfolding step r by simp
  have all: "\<forall>k<length (fl # files).
            name ((?rf # rfs) ! k) =
              (if contains (map strip contents ! k) ''package''
               then ''Processor Power_''
                    @ str_nat (i + length (filter (\<lambda>n. contains n ''package'')
                                               (take k (map strip contents))))
                    @ ''(Watt)''
               else map strip contents ! k)
          \<and> source_path ((?rf # rfs) ! k)
              = os_path_join (lin_rapl_dir self) [(fl # files) ! k, ''energy_uj'']"
  proof (intro allI impI)
    fix k assume k: "k < length (fl # files)"
    show "name ((?rf # rfs) ! k) =
              (if contains (map strip contents ! k) ''package''
               then ''Processor Power_''
                    @ str_nat (i + length (filter (\<lambda>n. contains n ''package'')
                                               (take k (map strip contents))))
                    @ ''(Watt)''
               else map strip contents ! k)
          \<and> source_path ((?rf # rfs) ! k)
              = os_path_join (lin_rapl_dir self) [(fl # files) ! k, ''energy_uj'']"
    proof (cases k)
      case 0
      then show ?thesis by (simp add: c(1) RAPLFile_def)
    next
      case (Suc k')
      with k have "k' < length files" by simp
      from nth [OF this] show ?thesis
        unfolding Suc c(1) by (cases ?pk) simp_all
    qed
  qed
  from res len all show ?case
    by (intro exI [of _ "?rf # rfs"]) simp
qed

lemma for_each_None:
  "for_each f xs = (ys, None) \<Longrightarrow> list_all2 (\<lambda>x y. f x = Inr y) xs ys"
proof (induction xs arbitrary: ys)
  case Nil
  then show ?case by simp
next
  case (Cons x xs)
  then show ?case
    by (auto split: sum.splits prod.splits)
qed

lemma rapl_start_name: "rapl_start h rf = Inr rf' \<Longrightarrow> name rf' = name rf"
  by (auto simp: rapl_start_def split: option.splits)

lemma rapl_end_name: "rapl_end h d rf = Inr rf' \<Longrightarrow> name rf' = name rf"
  by (auto simp: rapl_end_def split: option.splits)

lemma list_all2_names:
  "list_all2 (\<lambda>x y. f x = Inr y) xs ys \<Longrightarrow> (\<And>x y. f x = Inr y \<Longrightarrow> name y = name x)
   \<Longrightarrow> map name ys = map name xs"
  by (induction xs ys rule: list_all2_induct) auto

lemma keys_foldl_update:
  "set (map fst (foldl (\<lambda>d rf. AList.update (name rf) (power_measurement rf) d) d0 rfs))
     = set (map fst d0) \<union> set (map name rfs)"
proof (induction rfs arbitrary: d0)
  case Nil
  then show ?case by simp
next
  case (Cons rf rfs)
  have "set (map fst (AList.update (name rf) (power_measurement rf) d0))
        = insert (name rf) (set (map fst d0))"
    by (simp add: dom_update)
  then show ?case using Cons.IH [of "AList.update (name rf) (power_measurement rf) d0"]
    by simp
qed

lemma keys_foldl_update_distinct:
  "distinct (map fst d0 @ map name rfs) \<Longrightarrow>
   map fst (foldl (\<lambda>d rf. AList.update (name rf) (power_measurement rf) d) d0 rfs)
     = map fst d0 @ map name rfs"
proof (induction rfs arbitrary: d0)
  case Nil
  then show ?case by simp
next
  case (Cons rf rfs)
  have k: "map fst (AList.update (name rf) (power_measurement rf) d0) = map fst d0 @ [name rf]"
    using Cons.prems by (simp add: update_keys)
  have "distinct (map fst (AList.update (name rf) (power_measurement rf) d0) @ map name rfs)"
    unfolding k using Cons.prems by auto
  from Cons.IH [OF this] show ?case unfolding k by simp
qed

lemma get_cpu_details_keys:
  assumes "IntelRAPL_get_cpu_details h self = (details, self', [])"
  shows "set (map fst details) = set (map name (rapl_files self))
       \<and> (distinct (map name (rapl_files self)) \<longrightarrow> map fst details = map name (rapl_files self))"
proof -
  obtain started e1 where s: "for_each (rapl_start h) (rapl_files self) = (started, e1)"
    by (cases "for_each (rapl_start h) (rapl_files self)")
  have e1: "e1 = None"
    using assms s by (cases e1) (simp_all add: IntelRAPL_get_cpu_details_def)
  obtain stopped e2 where t: "for_each (rapl_end h (rapl_delay self)) started = (stopped, e2)"
    by (cases "for_each (rapl_end h (rapl_delay self)) started")
  have e2: "e2 = None"
    using assms s t e1 by (cases e2) (simp_all add: IntelRAPL_get_cpu_details_def)
  have d: "details = foldl (\<lambda>d rf. AList.update (name rf) (power_measurement rf) d) [] stopped"
    using assms s t e1 e2 by (simp add: IntelRAPL_get_cpu_details_def)
  have n1: "map name started = map name (rapl_files self)"
    using for_each_None [OF s [unfolded e1]] rapl_start_name by (rule list_all2_names)
  have n2: "map name stopped = map name started"
    using for_each_None [OF t [unfolded e2]] rapl_end_name by (rule list_all2_names)
  have "set (map fst details) = set (map name stopped)"
    unfolding d keys_foldl_update by simp
  moreover have "distinct (map name stopped) \<Longrightarrow> map fst details = map name stopped"
    unfolding d using keys_foldl_update_distinct [of "[]" stopped] by simp
  ultimately show ?thesis unfolding n2 n1 by blast
qed

section \<open>Auxiliary facts about the resolver\<close>

lemma attaining_max_idxs:
  assumes ne: "cpu_df \<noteq> []"
  shows "filter (\<lambda>i. \<forall>row \<in> set cpu_df. t row \<le> t (cpu_df ! i)) [0..<length cpu_df]
       = filter (\<lambda>i. map t cpu_df ! i = Max (set (map t cpu_df))) [0..<length cpu_df]"
proof (rule filter_cong [OF refl])
  let ?ts = "map t cpu_df"
  have tfin: "finite (set ?ts)" "set ?ts \<noteq> {}" using ne by auto
  fix i assume "i \<in> set [0..<length cpu_df]"
  then have i: "i < length cpu_df" by simp
  then have mem: "t (cpu_df ! i) \<in> set ?ts" by simp
  have nth: "?ts ! i = t (cpu_df ! i)" using i by simp
  have "(\<forall>row \<in> set cpu_df. t row \<le> t (cpu_df ! i)) \<longleftrightarrow> (\<forall>v \<in> set ?ts. v \<le> t (cpu_df ! i))"
    by simp
  also have "\<dots> \<longleftrightarrow> Max (set ?ts) \<le> t (cpu_df ! i)" using tfin by (simp add: Max_le_iff)
  also have "\<dots> \<longleftrightarrow> t (cpu_df ! i) = Max (set ?ts)"
    using mem tfin(1) by (metis Max_ge order_antisym order_refl)
  finally show "(\<forall>row \<in> set cpu_df. t row \<le> t (cpu_df ! i)) = (?ts ! i = Max (set ?ts))"
    using nth by simp
qed

lemma TDP_init_of_main:
  "TDP_main fz h = Inr ((m, t), logged) \<Longrightarrow> TDP_init fz h = Inr (\<lparr>model = m, tdp = t\<rparr>, logged)"
  by (simp add: TDP_init_def)

lemma TDP_main_no_power:
  assumes "detect_cpu_model h = Some d" "d \<noteq> []"
    and "get_cpu_power_from_registry fz h d = Inr pw" "\<not> truthy_power pw"
  shows "TDP_main fz h = Inr ((d, None), [Warning_unknown_model d])"
  using assms by (simp add: TDP_main_def)

section \<open>Direct-match priority\<close>

text \<open>
  Claim C1. Assume the library scores identical strings 100 with \<open>ratio\<close>. If the detected
  model string equals, ignoring case, the name of at least one row of the dataset, then
  \<open>_get_matching_cpu\<close> returns the name of a row \<open>i\<close> whose direct ratio reaches the
  threshold, is the maximum over the dataset, and is not reached by any earlier row; the
  result is the same for every token-set scoring function and for both greedy settings.
  (The token-set scores are computed before the test of the direct stage, but the result
  does not depend on them. No property of \<open>lower\<close> is used.)
\<close>

theorem direct_match_priority:
  assumes lib: "\<forall>s. ratio fz s s = 100"
    and eq: "\<exists>row \<in> set cpu_df. lower (Name row) = lower model_raw"
  shows "\<exists>i<length cpu_df.
           get_matching_cpu fz model_raw cpu_df greedy = Inr (Some (Name (cpu_df ! i)))
         \<and> (\<forall>t. get_matching_cpu (fz\<lparr>token_set_ratio := t\<rparr>) model_raw cpu_df greedy
                  = Inr (Some (Name (cpu_df ! i))))
         \<and> THRESHOLD_DIRECT \<le> ratio fz (lower model_raw) (lower (Name (cpu_df ! i)))
         \<and> (\<forall>row \<in> set cpu_df. ratio fz (lower model_raw) (lower (Name row))
                \<le> ratio fz (lower model_raw) (lower (Name (cpu_df ! i))))
         \<and> (\<forall>j<i. ratio fz (lower model_raw) (lower (Name (cpu_df ! j)))
                < ratio fz (lower model_raw) (lower (Name (cpu_df ! i))))"
proof -
  let ?r = "\<lambda>row. ratio fz (lower model_raw) (lower (Name row))"
  let ?rs = "get_direct_matches fz model_raw cpu_df"
  have rs: "?rs = map ?r cpu_df" by (simp add: get_direct_matches_def)
  from eq obtain row where row: "row \<in> set cpu_df" "lower (Name row) = lower model_raw" by blast
  then have ne: "cpu_df \<noteq> []" by auto
  have "?r row = 100" using row(2) lib by simp
  then have "100 \<in> set ?rs" using row(1) unfolding rs by force
  then have hit: "THRESHOLD_DIRECT \<le> Max (set ?rs)" by (simp add: THRESHOLD_DIRECT_def)
  have same: "get_direct_matches (fz\<lparr>token_set_ratio := t\<rparr>) model_raw cpu_df = ?rs" for t
    by (simp add: get_direct_matches_def)
  from direct_stage_result [OF ne hit] obtain i where i: "i < length cpu_df"
    "get_direct_matches fz model_raw cpu_df ! i = Max (set ?rs)"
    "\<forall>j<i. get_direct_matches fz model_raw cpu_df ! j \<noteq> Max (set ?rs)"
    by blast
  have first: "py_index ?rs (Max (set ?rs)) = Inr i"
  proof -
    have "Max (set ?rs) \<in> set ?rs" using i(1,2) rs by (metis length_map nth_mem)
    from py_index_first [OF this] obtain k where k: "py_index ?rs (Max (set ?rs)) = Inr k"
      "k < length ?rs" "?rs ! k = Max (set ?rs)" "\<forall>j<k. ?rs ! j \<noteq> Max (set ?rs)" by blast
    have "k = i" using i k by (metis linorder_neqE_nat)
    with k show ?thesis by simp
  qed
  have rne: "?rs \<noteq> []" using ne rs by simp
  have res: "get_matching_cpu fz' model_raw cpu_df greedy = Inr (Some (Name (cpu_df ! i)))"
    if "get_direct_matches fz' model_raw cpu_df = ?rs" for fz'
  proof -
    have tne: "get_token_set_matches fz' model_raw cpu_df \<noteq> []"
      using ne by (simp add: get_token_set_matches_def)
    show ?thesis
      using hit i(1) first
      by (simp add: get_matching_cpu_def that py_max_Max [OF rne] py_max_Max [OF tne]
            get_single_direct_match_def iloc_def)
  qed
  have mi: "?r (cpu_df ! i) = Max (set ?rs)" using i(1,2) rs by simp
  have le: "\<forall>row \<in> set cpu_df. ?r row \<le> ?r (cpu_df ! i)"
    unfolding mi rs by simp
  have lt: "\<forall>j<i. ?r (cpu_df ! j) < ?r (cpu_df ! i)"
  proof (intro allI impI)
    fix j assume j: "j < i"
    then have "?r (cpu_df ! j) \<noteq> ?r (cpu_df ! i)" using i rs mi by simp
    moreover have "?r (cpu_df ! j) \<le> ?r (cpu_df ! i)" using le j i(1) by simp
    ultimately show "?r (cpu_df ! j) < ?r (cpu_df ! i)" by simp
  qed
  show ?thesis
    using i(1) res [OF refl] res [OF same] hit mi le lt by auto
qed

theorem direct_match_priority_witness:
  "(\<forall>s. ratio sample_fuzz s s = 100)
   \<and> (\<exists>row \<in> set sample_df. lower (Name row) = lower ''INTEL Core i7'')
   \<and> (\<exists>i<length sample_df.
         get_matching_cpu sample_fuzz ''INTEL Core i7'' sample_df False
           = Inr (Some (Name (sample_df ! i)))
       \<and> (\<forall>t. get_matching_cpu (sample_fuzz\<lparr>token_set_ratio := t\<rparr>) ''INTEL Core i7'' sample_df False
                = Inr (Some (Name (sample_df ! i)))))"
proof -
  have h1: "\<forall>s. ratio sample_fuzz s s = 100" by (simp add: sample_fuzz_def)
  have h2: "\<exists>row \<in> set sample_df. lower (Name row) = lower ''INTEL Core i7''"
    by code_simp
  from direct_match_priority [OF h1 h2, of False] h1 h2 show ?thesis by blast
qed

section \<open>The token-set stage\<close>

text \<open>
  Claim C2. Assume the direct stage does not match: the dataset is not empty and every row's
  direct ratio is below the threshold of 100. Let \<open>att\<close> be the positions, in dataset
  order, of the rows whose token-set ratio is the maximum over the dataset. If every
  token-set ratio is below the threshold of 100, \<open>_get_matching_cpu\<close> returns \<open>None\<close>. If
  the maximum meets the threshold and \<open>att\<close> is a single position, the name of that row is
  returned. If \<open>att\<close> has more than one position, the result is \<open>None\<close> when greedy is
  off and the name of the first row of \<open>att\<close> when greedy is on.
\<close>

theorem token_set_stage:
  assumes ne: "cpu_df \<noteq> []"
    and miss: "\<forall>row \<in> set cpu_df. ratio fz (lower model_raw) (lower (Name row)) < THRESHOLD_DIRECT"
  shows "let ts = (\<lambda>row. token_set_ratio fz model_raw (Name row));
             att = filter (\<lambda>i. \<forall>row \<in> set cpu_df. ts row \<le> ts (cpu_df ! i)) [0..<length cpu_df];
             res = get_matching_cpu fz model_raw cpu_df greedy
         in ((\<forall>row \<in> set cpu_df. ts row < THRESHOLD_TOKEN_SET) \<longrightarrow> res = Inr None)
          \<and> (\<forall>i. att = [i] \<and> THRESHOLD_TOKEN_SET \<le> ts (cpu_df ! i)
                 \<longrightarrow> res = Inr (Some (Name (cpu_df ! i))))
          \<and> (1 < length att \<and> THRESHOLD_TOKEN_SET \<le> ts (cpu_df ! hd att) \<and> \<not> greedy
                 \<longrightarrow> res = Inr None)
          \<and> (1 < length att \<and> THRESHOLD_TOKEN_SET \<le> ts (cpu_df ! hd att) \<and> greedy
                 \<longrightarrow> res = Inr (Some (Name (cpu_df ! hd att))))"
proof -
  let ?t = "\<lambda>row. token_set_ratio fz model_raw (Name row)"
  let ?ts = "get_token_set_matches fz model_raw cpu_df"
  let ?rs = "get_direct_matches fz model_raw cpu_df"
  let ?m = "Max (set ?ts)"
  let ?att = "filter (\<lambda>i. \<forall>row \<in> set cpu_df. ?t row \<le> ?t (cpu_df ! i)) [0..<length cpu_df]"
  let ?idxs = "filter (\<lambda>i. ?ts ! i = ?m) [0..<length cpu_df]"
  have ts: "?ts = map ?t cpu_df" by (simp add: get_token_set_matches_def)
  have rs: "?rs = map (\<lambda>row. ratio fz (lower model_raw) (lower (Name row))) cpu_df"
    by (simp add: get_direct_matches_def)
  have "Max (set ?rs) \<in> set ?rs" using ne rs by (intro Max_in) auto
  then have dmiss: "Max (set ?rs) < THRESHOLD_DIRECT" using miss unfolding rs by auto
  have tfin: "finite (set ?ts)" "set ?ts \<noteq> {}" using ne ts by auto
  have att_eq: "?att = ?idxs"
  proof (rule filter_cong [OF refl])
    fix i assume "i \<in> set [0..<length cpu_df]"
    then have i: "i < length cpu_df" by simp
    then have mem: "?t (cpu_df ! i) \<in> set ?ts" unfolding ts by simp
    have nth: "?ts ! i = ?t (cpu_df ! i)" using i unfolding ts by simp
    have "(\<forall>row \<in> set cpu_df. ?t row \<le> ?t (cpu_df ! i)) \<longleftrightarrow> (\<forall>v \<in> set ?ts. v \<le> ?t (cpu_df ! i))"
      unfolding ts by simp
    also have "\<dots> \<longleftrightarrow> ?m \<le> ?t (cpu_df ! i)" using tfin by (simp add: Max_le_iff)
    also have "\<dots> \<longleftrightarrow> ?t (cpu_df ! i) = ?m" using mem tfin(1) by (metis Max_ge order_antisym order_refl)
    finally show "(\<forall>row \<in> set cpu_df. ?t row \<le> ?t (cpu_df ! i)) = (?ts ! i = ?m)" using nth by simp
  qed
  have res: "get_matching_cpu fz model_raw cpu_df greedy =
      (if ?m < THRESHOLD_TOKEN_SET then Inr None
       else if length ?att = 1 \<or> greedy then Inr (Some (Name (cpu_df ! hd ?att)))
       else Inr None)"
    using token_stage_result [OF ne dmiss, of greedy] unfolding att_eq Let_def .
  have below: "?m < THRESHOLD_TOKEN_SET" if "\<forall>row \<in> set cpu_df. ?t row < THRESHOLD_TOKEN_SET"
    using that tfin unfolding ts by (simp add: Max_less_iff)
  have above: "\<not> ?m < THRESHOLD_TOKEN_SET" if "i \<in> set ?att" "THRESHOLD_TOKEN_SET \<le> ?t (cpu_df ! i)" for i
  proof -
    from that(1) have "i < length cpu_df" by simp
    then have "?t (cpu_df ! i) \<in> set ?ts" unfolding ts by simp
    then have "?t (cpu_df ! i) \<le> ?m" using tfin(1) by (rule_tac Max_ge)
    with that(2) show ?thesis by simp
  qed
  have c1: "(\<forall>row \<in> set cpu_df. ?t row < THRESHOLD_TOKEN_SET)
            \<longrightarrow> get_matching_cpu fz model_raw cpu_df greedy = Inr None"
    using below res by simp
  have c2: "\<forall>i. ?att = [i] \<and> THRESHOLD_TOKEN_SET \<le> ?t (cpu_df ! i)
            \<longrightarrow> get_matching_cpu fz model_raw cpu_df greedy = Inr (Some (Name (cpu_df ! i)))"
  proof (intro allI impI, elim conjE)
    fix i assume a: "?att = [i]" and t: "THRESHOLD_TOKEN_SET \<le> ?t (cpu_df ! i)"
    have "i \<in> set ?att" unfolding a by simp
    from above [OF this t] show "get_matching_cpu fz model_raw cpu_df greedy = Inr (Some (Name (cpu_df ! i)))"
      unfolding res a by simp
  qed
  have hd_in: "hd ?att \<in> set ?att" if "1 < length ?att"
    using that by (cases ?att) (simp_all del: filter.simps)
  have c3: "1 < length ?att \<and> THRESHOLD_TOKEN_SET \<le> ?t (cpu_df ! hd ?att) \<and> \<not> greedy
            \<longrightarrow> get_matching_cpu fz model_raw cpu_df greedy = Inr None"
    using above [OF hd_in] res by auto
  have c4: "1 < length ?att \<and> THRESHOLD_TOKEN_SET \<le> ?t (cpu_df ! hd ?att) \<and> greedy
            \<longrightarrow> get_matching_cpu fz model_raw cpu_df greedy = Inr (Some (Name (cpu_df ! hd ?att)))"
    using above [OF hd_in] res by auto
  show ?thesis unfolding Let_def using c1 c2 c3 c4 by blast
qed

theorem token_set_stage_witness:
  "sample_df \<noteq> []
   \<and> get_direct_matches sample_fuzz ''i7 Core Intel'' sample_df = [0, 0, 0]
   \<and> get_matching_cpu sample_fuzz ''Xeon'' sample_df True = Inr None
   \<and> get_matching_cpu sample_fuzz ''7 Ryzen AMD'' sample_df False = Inr (Some ''AMD Ryzen 7'')
   \<and> get_matching_cpu sample_fuzz ''i7 Core Intel'' sample_df False = Inr None
   \<and> get_matching_cpu sample_fuzz ''i7 Core Intel'' sample_df True = Inr (Some ''Intel Core i7'')"
proof -
  let ?ts = "\<lambda>m row. token_set_ratio sample_fuzz m (Name row)"
  let ?att = "\<lambda>m. filter (\<lambda>i. \<forall>row \<in> set sample_df. ?ts m row \<le> ?ts m (sample_df ! i)) [0..<length sample_df]"
  have ne: "sample_df \<noteq> []" by (simp add: sample_df_def)
  have dx: "\<forall>row \<in> set sample_df. ratio sample_fuzz (lower ''Xeon'') (lower (Name row)) < THRESHOLD_DIRECT"
    by code_simp
  have da: "\<forall>row \<in> set sample_df. ratio sample_fuzz (lower ''7 Ryzen AMD'') (lower (Name row)) < THRESHOLD_DIRECT"
    by code_simp
  have di: "\<forall>row \<in> set sample_df. ratio sample_fuzz (lower ''i7 Core Intel'') (lower (Name row)) < THRESHOLD_DIRECT"
    by code_simp
  have r1: "get_matching_cpu sample_fuzz ''Xeon'' sample_df True = Inr None"
  proof -
    have "\<forall>row \<in> set sample_df. ?ts ''Xeon'' row < THRESHOLD_TOKEN_SET" by code_simp
    from token_set_stage [OF ne dx, of True, unfolded Let_def, THEN conjunct1, THEN mp, OF this]
    show ?thesis .
  qed
  have r2: "get_matching_cpu sample_fuzz ''7 Ryzen AMD'' sample_df False = Inr (Some ''AMD Ryzen 7'')"
  proof -
    have att: "?att ''7 Ryzen AMD'' = [0]" by code_simp
    have thr: "THRESHOLD_TOKEN_SET \<le> ?ts ''7 Ryzen AMD'' (sample_df ! 0)" by code_simp
    have nm: "Name (sample_df ! 0) = ''AMD Ryzen 7''" by code_simp
    from token_set_stage [OF ne da, of False, unfolded Let_def, THEN conjunct2, THEN conjunct1,
        THEN spec, of 0, THEN mp, OF conjI, OF att thr]
    show ?thesis unfolding nm .
  qed
  have att: "?att ''i7 Core Intel'' = [1, 2]" by code_simp
  have thr: "THRESHOLD_TOKEN_SET \<le> ?ts ''i7 Core Intel'' (sample_df ! hd (?att ''i7 Core Intel''))"
    unfolding att by code_simp
  have nm: "Name (sample_df ! hd (?att ''i7 Core Intel'')) = ''Intel Core i7''"
    unfolding att by code_simp
  have len: "1 < length (?att ''i7 Core Intel'')" unfolding att by simp
  have r3: "get_matching_cpu sample_fuzz ''i7 Core Intel'' sample_df False = Inr None"
  proof -
    have "1 < length (?att ''i7 Core Intel'')
          \<and> THRESHOLD_TOKEN_SET \<le> ?ts ''i7 Core Intel'' (sample_df ! hd (?att ''i7 Core Intel''))
          \<and> \<not> False"
      using len thr by (intro conjI) simp_all
    from token_set_stage [OF ne di, of False, unfolded Let_def, THEN conjunct2, THEN conjunct2,
        THEN conjunct1, THEN mp, OF this]
    show ?thesis .
  qed
  have r4: "get_matching_cpu sample_fuzz ''i7 Core Intel'' sample_df True = Inr (Some ''Intel Core i7'')"
  proof -
    have "1 < length (?att ''i7 Core Intel'')
          \<and> THRESHOLD_TOKEN_SET \<le> ?ts ''i7 Core Intel'' (sample_df ! hd (?att ''i7 Core Intel''))
          \<and> True"
      using len thr by (intro conjI) simp_all
    from token_set_stage [OF ne di, of True, unfolded Let_def, THEN conjunct2, THEN conjunct2,
        THEN conjunct2, THEN mp, OF this]
    show ?thesis unfolding nm .
  qed
  have gd: "get_direct_matches sample_fuzz ''i7 Core Intel'' sample_df = [0, 0, 0]"
    by code_simp
  show ?thesis
    by (intro conjI) (rule ne, rule gd, rule r1, rule r2, rule r3, rule r4)
qed

section \<open>Aggregation of the power log\<close>

text \<open>
  Claim C3, as amended. For every parsed log in which at least one row remains after the
  rows with a missing value are dropped, \<open>IntelPowerGadget.get_cpu_details\<close> logs nothing
  beyond what running the tool logs, and its result has exactly one entry for each column
  other than \<open>System Time\<close>, \<open>Elapsed Time (sec)\<close> and \<open>RDTSC\<close>: the value of the last
  remaining row when the column name contains \<open>Cumulative\<close>, and otherwise the sum of the
  values of the remaining rows divided by their number. On the log with the cumulative
  column 1, 2, 5 and the other column 10, 20, 30 the result holds 5 and 20.
\<close>

theorem aggregation_policy:
  assumes csv: "read_csv h (log_file_path self) = Inr df"
    and rows: "kept_rows df \<noteq> []"
  shows "\<exists>cpu_details.
           IntelPowerGadget_get_cpu_details h self = (cpu_details, log_values h self)
         \<and> (\<forall>c. c \<notin> set (columns (dropna df)) \<or> c \<in> set excluded_columns
                  \<longrightarrow> map_of cpu_details c = None)
         \<and> (\<forall>c. c \<in> set (columns (dropna df)) \<and> c \<notin> set excluded_columns \<longrightarrow>
                (\<exists>xs. getitem (dropna df) c = Inr (map Num xs)
                     \<and> length xs = length (kept_rows df)
                     \<and> map_of cpu_details c =
                         Some (if contains c ''Cumulative'' then Num (last xs)
                               else Num (sum_list xs / of_nat (length xs)))))"
proof -
  let ?cd = "dropna df"
  have cols: "\<forall>c \<in> set (columns ?cd). \<exists>vs. map_of ?cd c = Some vs \<and> vs \<noteq> []"
  proof
    fix c assume "c \<in> set (columns ?cd)"
    then have "map_of ?cd c \<noteq> None"
      by (simp add: columns_def map_of_eq_None_iff)
    then obtain vs where vs: "map_of ?cd c = Some vs"
      by (cases "map_of ?cd c") simp_all
    then have "(c, vs) \<in> set ?cd" by (rule map_of_SomeD)
    from dropna_columns [OF this] obtain xs where
      "vs = map Num xs" "length xs = length (kept_rows df)" by blast
    with rows have "vs \<noteq> []" by (metis length_0_conv length_map)
    with vs show "\<exists>vs. map_of ?cd c = Some vs \<and> vs \<noteq> []" by blast
  qed
  from aggregate_columns_all [OF cols, of "[]"] obtain d' where
    d': "aggregate_columns ?cd (columns ?cd) [] = (d', None)"
    and m: "\<And>c. map_of d' c =
            (if c \<in> set (columns ?cd) \<and> c \<notin> set excluded_columns
             then (case map_of ?cd c of
                     None \<Rightarrow> None
                   | Some vs \<Rightarrow> Some (if contains c ''Cumulative'' then last vs else mean vs))
             else map_of [] c)" by blast
  have res: "IntelPowerGadget_get_cpu_details h self = (d', log_values h self)"
    by (simp add: IntelPowerGadget_get_cpu_details_def csv d' Let_def)
  have absent: "\<forall>c. c \<notin> set (columns ?cd) \<or> c \<in> set excluded_columns \<longrightarrow> map_of d' c = None"
  proof (intro allI impI)
    fix c assume "c \<notin> set (columns ?cd) \<or> c \<in> set excluded_columns"
    then show "map_of d' c = None" using m [of c] by auto
  qed
  have present: "\<forall>c. c \<in> set (columns ?cd) \<and> c \<notin> set excluded_columns \<longrightarrow>
                (\<exists>xs. getitem ?cd c = Inr (map Num xs)
                     \<and> length xs = length (kept_rows df)
                     \<and> map_of d' c =
                         Some (if contains c ''Cumulative'' then Num (last xs)
                               else Num (sum_list xs / of_nat (length xs))))"
  proof (intro allI impI)
    fix c assume c: "c \<in> set (columns ?cd) \<and> c \<notin> set excluded_columns"
    with cols obtain vs where vs: "map_of ?cd c = Some vs" by blast
    then have "(c, vs) \<in> set ?cd" by (rule map_of_SomeD)
    from dropna_columns [OF this] obtain xs where
      xs: "vs = map Num xs" "length xs = length (kept_rows df)" by blast
    have ne: "xs \<noteq> []" using xs(2) rows by (metis length_0_conv)
    have "last vs = Num (last xs)" unfolding xs(1) using ne by (simp add: last_map)
    moreover have "mean vs = Num (sum_list xs / of_nat (length xs))"
      unfolding xs(1) using ne by (rule mean_map_Num)
    ultimately have "map_of d' c = Some (if contains c ''Cumulative'' then Num (last xs)
                               else Num (sum_list xs / of_nat (length xs)))"
      using m [of c] c vs by simp
    moreover have "getitem ?cd c = Inr (map Num xs)" using vs xs(1) by (simp add: getitem_def)
    ultimately show "\<exists>xs. getitem ?cd c = Inr (map Num xs)
                     \<and> length xs = length (kept_rows df)
                     \<and> map_of d' c =
                         Some (if contains c ''Cumulative'' then Num (last xs)
                               else Num (sum_list xs / of_nat (length xs)))"
      using xs(2) by blast
  qed
  show ?thesis
    by (rule exI [of _ d'], intro conjI) (rule res, rule absent, rule present)
qed

theorem aggregation_policy_witness:
  "read_csv mac_host (log_file_path sample_gadget) = Inr sample_log
   \<and> kept_rows sample_log = [0, 1, 2]
   \<and> (\<exists>cpu_details.
         IntelPowerGadget_get_cpu_details mac_host sample_gadget
           = (cpu_details, log_values mac_host sample_gadget)
       \<and> map_of cpu_details ''Cumulative Processor Energy_0(Joules)'' = Some (Num 5)
       \<and> map_of cpu_details ''Processor Power_0(Watt)'' = Some (Num 20)
       \<and> map_of cpu_details ''RDTSC'' = None)"
proof -
  let ?cu = "''Cumulative Processor Energy_0(Joules)''"
  let ?pp = "''Processor Power_0(Watt)''"
  have csv: "read_csv mac_host (log_file_path sample_gadget) = Inr sample_log" by code_simp
  have kept: "kept_rows sample_log = [0, 1, 2]" by code_simp
  then have rows: "kept_rows sample_log \<noteq> []" by simp
  from aggregation_policy [OF csv rows] obtain d where
    d: "IntelPowerGadget_get_cpu_details mac_host sample_gadget = (d, log_values mac_host sample_gadget)"
    and absent: "\<And>c. c \<notin> set (columns (dropna sample_log)) \<or> c \<in> set excluded_columns
                  \<Longrightarrow> map_of d c = None"
    and present: "\<And>c. c \<in> set (columns (dropna sample_log)) \<and> c \<notin> set excluded_columns \<Longrightarrow>
                (\<exists>xs. getitem (dropna sample_log) c = Inr (map Num xs)
                     \<and> length xs = length (kept_rows sample_log)
                     \<and> map_of d c =
                         Some (if contains c ''Cumulative'' then Num (last xs)
                               else Num (sum_list xs / of_nat (length xs))))"
    by blast
  have inj: "map Num xs = map Num ys \<Longrightarrow> xs = ys" for xs ys
    by (simp add: inj_map_eq_map inj_on_def)
  have "?cu \<in> set (columns (dropna sample_log)) \<and> ?cu \<notin> set excluded_columns" by code_simp
  from present [OF this] obtain xs where
    xs: "getitem (dropna sample_log) ?cu = Inr (map Num xs)"
        "map_of d ?cu = Some (if contains ?cu ''Cumulative'' then Num (last xs)
                               else Num (sum_list xs / of_nat (length xs)))" by blast
  have "getitem (dropna sample_log) ?cu = Inr (map Num [1, 2, 5])" by code_simp
  with xs(1) have "xs = [1, 2, 5]" using inj by (metis sum.inject(2))
  moreover have "contains ?cu ''Cumulative''" by code_simp
  ultimately have r1: "map_of d ?cu = Some (Num 5)" using xs(2) by simp
  have "?pp \<in> set (columns (dropna sample_log)) \<and> ?pp \<notin> set excluded_columns" by code_simp
  from present [OF this] obtain ys where
    ys: "getitem (dropna sample_log) ?pp = Inr (map Num ys)"
        "map_of d ?pp = Some (if contains ?pp ''Cumulative'' then Num (last ys)
                               else Num (sum_list ys / of_nat (length ys)))" by blast
  have "getitem (dropna sample_log) ?pp = Inr (map Num [10, 20, 30])" by code_simp
  with ys(1) have "ys = [10, 20, 30]" using inj by (metis sum.inject(2))
  moreover have "\<not> contains ?pp ''Cumulative''" by code_simp
  ultimately have r2: "map_of d ?pp = Some (Num 20)" using ys(2) by simp
  have "''RDTSC'' \<notin> set (columns (dropna sample_log)) \<or> ''RDTSC'' \<in> set excluded_columns"
    by code_simp
  from absent [OF this] have r3: "map_of d ''RDTSC'' = None" .
  show ?thesis
    by (intro conjI exI [of _ d]) (rule csv, rule kept, rule d, rule r1, rule r2, rule r3)
qed

text \<open>
  The claim as stated, for every parsed log, fails on a log that holds the header line
  only: \<open>iloc[-1]\<close> raises IndexError on the cumulative column, the exception is logged,
  and the result has no entry for that column nor for the column after it.
\<close>

theorem aggregation_policy_counterexample:
  "read_csv header_only_host (log_file_path sample_gadget) = Inr header_only_log
   \<and> kept_rows header_only_log = []
   \<and> IntelPowerGadget_get_cpu_details header_only_host sample_gadget
       = ([], [Info_unable_to_read_log ''./intel_power_gadget_log.csv'' IndexError])
   \<and> map_of (fst (IntelPowerGadget_get_cpu_details header_only_host sample_gadget))
        ''Cumulative Processor Energy_0(Joules)'' = None
   \<and> map_of (fst (IntelPowerGadget_get_cpu_details header_only_host sample_gadget))
        ''Processor Power_0(Watt)'' = None"
  by code_simp

section \<open>Discovery of the energy domains\<close>

text \<open>
  Claim C4. When the construction of \<open>IntelRAPL\<close> succeeds, the counters it holds are, in
  the order of the directory listing, those of the entries whose identifier contains the
  delimiter \<open>:\<close> and of no other entry. The counter of an entry whose declared name (the
  stripped content of its \<open>name\<close> file) contains \<open>package\<close> is named
  \<open>Processor Power_i(Watt)\<close>, where \<open>i\<close> is the number of package entries kept before it;
  the counter of any other entry keeps its declared name. A sampling that raises nothing
  returns a mapping whose keys are the names of the counters, in their order when the
  names are distinct. For a directory with domains named \<open>package-0\<close>, \<open>package-1\<close> and
  \<open>dram\<close> the keys are \<open>Processor Power_0(Watt)\<close>, \<open>Processor Power_1(Watt)\<close> and
  \<open>dram\<close>, in this order.
\<close>

theorem package_domains_renamed:
  assumes init: "IntelRAPL_init h rapl_dir = Inr self"
  shows "\<exists>entries contents.
           os_listdir h rapl_dir = Inr entries
         \<and> map (\<lambda>f. open_read h (os_path_join rapl_dir [f, ''name'']))
               (filter (\<lambda>x. CHR '':'' \<in> set x) entries) = map Inr contents
         \<and> (let files = filter (\<lambda>x. CHR '':'' \<in> set x) entries;
                 names = map strip contents
             in length (rapl_files self) = length files
              \<and> (\<forall>k<length files.
                    name (rapl_files self ! k) =
                      (if contains (names ! k) ''package''
                       then ''Processor Power_''
                            @ str_nat (length (filter (\<lambda>n. contains n ''package'') (take k names)))
                            @ ''(Watt)''
                       else names ! k)
                  \<and> source_path (rapl_files self ! k)
                      = os_path_join rapl_dir [files ! k, ''energy_uj'']))
         \<and> (\<forall>details self'.
               IntelRAPL_get_cpu_details h self = (details, self', []) \<longrightarrow>
                 set (map fst details) = set (map name (rapl_files self))
               \<and> (distinct (map name (rapl_files self))
                    \<longrightarrow> map fst details = map name (rapl_files self)))"
proof -
  let ?self0 = "\<lparr>lin_rapl_dir = rapl_dir, rapl_system = lower (platform h),
                 rapl_delay = 1 / 100, rapl_files = []\<rparr>"
  from init have f: "fetch_rapl_files h ?self0 = Inr self"
    by (simp add: IntelRAPL_init_def setup_rapl_def split: if_splits)
  then obtain entries where ls: "os_listdir h rapl_dir = Inr entries"
    by (cases "os_listdir h rapl_dir") (simp_all add: fetch_rapl_files_def)
  let ?files = "filter (\<lambda>x. CHR '':'' \<in> set x) entries"
  have loop: "fetch_loop h ?files 0 ?self0 = Inr self"
    using f ls by (simp add: fetch_rapl_files_def)
  from fetch_loop_reads [OF loop] obtain contents where
    reads: "map (\<lambda>f. open_read h (os_path_join rapl_dir [f, ''name''])) ?files = map Inr contents"
    by auto
  have reads0: "map (\<lambda>f. open_read h (os_path_join (lin_rapl_dir ?self0) [f, ''name''])) ?files
                = map Inr contents"
    using reads by simp
  from fetch_loop_labels [OF reads0, of 0] obtain rfs where
    L: "fetch_loop h ?files 0 ?self0 = Inr (?self0\<lparr>rapl_files := rapl_files ?self0 @ rfs\<rparr>)
       \<and> length rfs = length ?files
       \<and> (\<forall>k<length ?files.
            name (rfs ! k) =
              (if contains (map strip contents ! k) ''package''
               then ''Processor Power_''
                    @ str_nat (0 + length (filter (\<lambda>n. contains n ''package'')
                                               (take k (map strip contents))))
                    @ ''(Watt)''
               else map strip contents ! k)
          \<and> source_path (rfs ! k) = os_path_join (lin_rapl_dir ?self0) [?files ! k, ''energy_uj''])"
    by (elim exE)
  from L loop have rf: "rapl_files self = rfs" by auto
  have shape: "let files = ?files; names = map strip contents
             in length (rapl_files self) = length files
              \<and> (\<forall>k<length files.
                    name (rapl_files self ! k) =
                      (if contains (names ! k) ''package''
                       then ''Processor Power_''
                            @ str_nat (length (filter (\<lambda>n. contains n ''package'') (take k names)))
                            @ ''(Watt)''
                       else names ! k)
                  \<and> source_path (rapl_files self ! k)
                      = os_path_join rapl_dir [files ! k, ''energy_uj''])"
    unfolding Let_def rf using L by simp
  have keys: "\<forall>details self'.
               IntelRAPL_get_cpu_details h self = (details, self', []) \<longrightarrow>
                 set (map fst details) = set (map name (rapl_files self))
               \<and> (distinct (map name (rapl_files self))
                    \<longrightarrow> map fst details = map name (rapl_files self))"
    using get_cpu_details_keys by blast
  show ?thesis
    by (intro exI [of _ entries] exI [of _ contents] conjI) (rule ls, rule reads, rule shape, rule keys)
qed

theorem package_domains_renamed_witness:
  "\<exists>self. IntelRAPL_init linux_host ''/rapl'' = Inr self
     \<and> map name (rapl_files self)
         = [''Processor Power_0(Watt)'', ''Processor Power_1(Watt)'', ''dram'']
     \<and> map fst (fst (IntelRAPL_get_cpu_details linux_host self))
         = [''Processor Power_0(Watt)'', ''Processor Power_1(Watt)'', ''dram'']"
proof -
  have "case IntelRAPL_init linux_host ''/rapl'' of
          Inl e \<Rightarrow> False
        | Inr self \<Rightarrow>
            map name (rapl_files self)
              = [''Processor Power_0(Watt)'', ''Processor Power_1(Watt)'', ''dram'']
          \<and> snd (snd (IntelRAPL_get_cpu_details linux_host self)) = []"
    by code_simp
  then obtain self where init: "IntelRAPL_init linux_host ''/rapl'' = Inr self"
    and names: "map name (rapl_files self)
              = [''Processor Power_0(Watt)'', ''Processor Power_1(Watt)'', ''dram'']"
    and quiet: "snd (snd (IntelRAPL_get_cpu_details linux_host self)) = []"
    by (cases "IntelRAPL_init linux_host ''/rapl''") simp_all
  obtain details self' logged where
    run0: "IntelRAPL_get_cpu_details linux_host self = (details, self', logged)"
    by (rule prod_cases3)
  from quiet have "logged = []" unfolding run0 by simp
  with run0 have run: "IntelRAPL_get_cpu_details linux_host self = (details, self', [])"
    by simp
  have dist: "distinct (map name (rapl_files self))" unfolding names by simp
  from package_domains_renamed [OF init] have
    "\<forall>details self'.
       IntelRAPL_get_cpu_details linux_host self = (details, self', []) \<longrightarrow>
         set (map fst details) = set (map name (rapl_files self))
       \<and> (distinct (map name (rapl_files self))
            \<longrightarrow> map fst details = map name (rapl_files self))"
    by (elim exE conjE)
  from this [rule_format, OF run, THEN conjunct2, THEN mp, OF dist]
  have "map fst details = map name (rapl_files self)" .
  then have "map fst (fst (IntelRAPL_get_cpu_details linux_host self))
         = [''Processor Power_0(Watt)'', ''Processor Power_1(Watt)'', ''dram'']"
    unfolding run names by simp
  with init names show ?thesis
    by (intro exI [of _ self] conjI)
qed

section \<open>Errors of the construction\<close>

text \<open>
  Claim C5, as amended. The construction of \<open>IntelRAPL\<close> raises SystemError whenever the
  platform name does not start with \<open>lin\<close>, whether the directory exists or not, and
  FileNotFoundError whenever the platform is supported and the directory does not exist.
  When the platform is supported and the directory exists, neither check raises and the
  construction results in whatever the discovery of the domains results in, success or
  the exception it raises.
\<close>

theorem construction_outcomes:
  "(\<not> startswith (lower (platform h)) ''lin'' \<longrightarrow> IntelRAPL_init h rapl_dir = Inl SystemError)
   \<and> (startswith (lower (platform h)) ''lin'' \<and> \<not> os_path_exists h rapl_dir
        \<longrightarrow> IntelRAPL_init h rapl_dir = Inl FileNotFoundError)
   \<and> (startswith (lower (platform h)) ''lin'' \<and> os_path_exists h rapl_dir
        \<longrightarrow> IntelRAPL_init h rapl_dir
              = fetch_rapl_files h
                  \<lparr>lin_rapl_dir = rapl_dir, rapl_system = lower (platform h),
                   rapl_delay = 1 / 100, rapl_files = []\<rparr>)"
proof (intro conjI impI)
  assume "\<not> startswith (lower (platform h)) ''lin''"
  then show "IntelRAPL_init h rapl_dir = Inl SystemError"
    by (simp add: IntelRAPL_init_def setup_rapl_def is_platform_supported_def)
next
  assume "startswith (lower (platform h)) ''lin'' \<and> \<not> os_path_exists h rapl_dir"
  then show "IntelRAPL_init h rapl_dir = Inl FileNotFoundError"
    by (simp add: IntelRAPL_init_def setup_rapl_def is_platform_supported_def)
next
  assume "startswith (lower (platform h)) ''lin'' \<and> os_path_exists h rapl_dir"
  then show "IntelRAPL_init h rapl_dir
              = fetch_rapl_files h
                  \<lparr>lin_rapl_dir = rapl_dir, rapl_system = lower (platform h),
                   rapl_delay = 1 / 100, rapl_files = []\<rparr>"
    by (simp add: IntelRAPL_init_def setup_rapl_def is_platform_supported_def)
qed

theorem construction_outcomes_witness:
  "\<not> startswith (lower (platform mac_host)) ''lin''
   \<and> \<not> os_path_exists mac_host ''/rapl''
   \<and> IntelRAPL_init mac_host ''/rapl'' = Inl SystemError
   \<and> startswith (lower (platform linux_host)) ''lin''
   \<and> \<not> os_path_exists linux_host ''/sys/class/powercap/intel-rapl''
   \<and> IntelRAPL_init linux_host ''/sys/class/powercap/intel-rapl'' = Inl FileNotFoundError
   \<and> os_path_exists linux_host ''/rapl''
   \<and> IntelRAPL_init linux_host ''/rapl''
       = fetch_rapl_files linux_host
           \<lparr>lin_rapl_dir = ''/rapl'', rapl_system = lower (platform linux_host),
            rapl_delay = 1 / 100, rapl_files = []\<rparr>
   \<and> (\<exists>self. IntelRAPL_init linux_host ''/rapl'' = Inr self)"
proof -
  have m: "\<not> startswith (lower (platform mac_host)) ''lin''" by code_simp
  have mx: "\<not> os_path_exists mac_host ''/rapl''" by code_simp
  have l: "startswith (lower (platform linux_host)) ''lin''" by code_simp
  have lp: "\<not> os_path_exists linux_host ''/sys/class/powercap/intel-rapl''" by code_simp
  have le: "os_path_exists linux_host ''/rapl''" by code_simp
  have ok: "case IntelRAPL_init linux_host ''/rapl'' of Inl e \<Rightarrow> False | Inr self \<Rightarrow> True"
    by code_simp
  have r1: "IntelRAPL_init mac_host ''/rapl'' = Inl SystemError"
    using construction_outcomes [of mac_host "''/rapl''", THEN conjunct1, THEN mp, OF m] .
  have r2: "IntelRAPL_init linux_host ''/sys/class/powercap/intel-rapl'' = Inl FileNotFoundError"
    using construction_outcomes [of linux_host "''/sys/class/powercap/intel-rapl''",
        THEN conjunct2, THEN conjunct1, THEN mp, OF conjI, OF l lp] .
  have r3: "\<exists>self. IntelRAPL_init linux_host ''/rapl'' = Inr self"
    using ok by (cases "IntelRAPL_init linux_host ''/rapl''") simp_all
  have r4: "IntelRAPL_init linux_host ''/rapl''
       = fetch_rapl_files linux_host
           \<lparr>lin_rapl_dir = ''/rapl'', rapl_system = lower (platform linux_host),
            rapl_delay = 1 / 100, rapl_files = []\<rparr>"
    using construction_outcomes [of linux_host "''/rapl''",
        THEN conjunct2, THEN conjunct2, THEN mp, OF conjI, OF l le] .
  show ?thesis
    by (intro conjI)
      (rule m, rule mx, rule r1, rule l, rule lp, rule r2, rule le, rule r4, rule r3)
qed

text \<open>
  The claim as stated allows two errors and success only. On a supported platform, with a
  path that exists and is a regular file, the construction raises NotADirectoryError. It
  raises UnicodeDecodeError when the \<open>name\<close> file of a domain entry does not decode, and
  NotADirectoryError when a domain entry is a regular file.
\<close>

theorem construction_outcomes_counterexample:
  "startswith (lower (platform file_root_host)) ''lin''
   \<and> os_path_exists file_root_host ''/rapl''
   \<and> IntelRAPL_init file_root_host ''/rapl'' = Inl NotADirectoryError
   \<and> os_path_exists undecodable_name_host ''/rapl''
   \<and> IntelRAPL_init undecodable_name_host ''/rapl'' = Inl UnicodeDecodeError
   \<and> os_path_exists file_entry_host ''/rapl''
   \<and> IntelRAPL_init file_entry_host ''/rapl'' = Inl NotADirectoryError"
  by code_simp

section \<open>A log that cannot be read or parsed\<close>

text \<open>
  Claim C6. When reading or parsing the log file fails (\<open>read_csv\<close> raises),
  \<open>IntelPowerGadget.get_cpu_details\<close> returns the empty mapping and logs the failure after
  whatever running the tool logged; the exception does not reach the caller.
\<close>

theorem parse_failure_gives_empty_mapping:
  assumes "read_csv h (log_file_path self) = Inl e"
  shows "IntelPowerGadget_get_cpu_details h self
         = ([], log_values h self @ [Info_unable_to_read_log (log_file_path self) e])"
  using assms by (simp add: IntelPowerGadget_get_cpu_details_def)

theorem parse_failure_gives_empty_mapping_witness:
  "read_csv mac_host (log_file_path (sample_gadget\<lparr>log_file_path := ''/tmp/other.csv''\<rparr>))
     = Inl FileNotFoundError
   \<and> IntelPowerGadget_get_cpu_details mac_host (sample_gadget\<lparr>log_file_path := ''/tmp/other.csv''\<rparr>)
     = ([], [Info_unable_to_read_log ''/tmp/other.csv'' FileNotFoundError])"
proof -
  let ?g = "sample_gadget\<lparr>log_file_path := ''/tmp/other.csv''\<rparr>"
  have csv: "read_csv mac_host (log_file_path ?g) = Inl FileNotFoundError" by code_simp
  have lv: "log_values mac_host ?g = []" by code_simp
  have p: "log_file_path ?g = ''/tmp/other.csv''" by simp
  from parse_failure_gives_empty_mapping [OF csv] csv show ?thesis
    unfolding lv p by simp
qed

section \<open>The resolver never matches greedily\<close>

text \<open>
  Claim C8. \<open>_get_cpu_power_from_registry\<close> calls the matching procedure without a greedy
  argument, hence with greedy off. So when the direct stage does not match and more than
  one row attains the maximum token-set ratio, which meets the threshold, the matching
  returns \<open>None\<close>, the registry lookup returns no power, and \<open>_main\<close> and the constructor
  of \<open>TDP\<close> yield the detected model with an absent TDP and the unknown-model warning;
  the selection that greedy mode would make, the name of one of the rows, is not reached.
\<close>

theorem public_resolver_not_greedy:
  assumes det: "detect_cpu_model h = Some d" "d \<noteq> []"
    and ne: "cpu_power_data h \<noteq> []"
    and miss: "\<forall>row \<in> set (cpu_power_data h).
                 ratio fz (lower d) (lower (Name row)) < THRESHOLD_DIRECT"
    and thr: "\<exists>row \<in> set (cpu_power_data h). THRESHOLD_TOKEN_SET \<le> token_set_ratio fz d (Name row)"
    and tie: "1 < length (filter (\<lambda>i. \<forall>row \<in> set (cpu_power_data h).
                              token_set_ratio fz d (Name row)
                                \<le> token_set_ratio fz d (Name (cpu_power_data h ! i)))
                         [0..<length (cpu_power_data h)])"
  shows "get_matching_cpu fz d (cpu_power_data h) False = Inr None
       \<and> get_cpu_power_from_registry fz h d = Inr None
       \<and> TDP_main fz h = Inr ((d, None), [Warning_unknown_model d])
       \<and> TDP_init fz h = Inr (\<lparr>model = d, tdp = None\<rparr>, [Warning_unknown_model d])
       \<and> (\<exists>i<length (cpu_power_data h).
             get_matching_cpu fz d (cpu_power_data h) True = Inr (Some (Name (cpu_power_data h ! i))))"
proof -
  let ?df = "cpu_power_data h"
  let ?t = "\<lambda>row. token_set_ratio fz d (Name row)"
  let ?ts = "get_token_set_matches fz d ?df"
  let ?rs = "get_direct_matches fz d ?df"
  let ?idxs = "filter (\<lambda>i. ?ts ! i = Max (set ?ts)) [0..<length ?df]"
  have ts: "?ts = map ?t ?df" by (simp add: get_token_set_matches_def)
  have rs: "?rs = map (\<lambda>row. ratio fz (lower d) (lower (Name row))) ?df"
    by (simp add: get_direct_matches_def)
  have "Max (set ?rs) \<in> set ?rs" using ne rs by (intro Max_in) auto
  then have dmiss: "Max (set ?rs) < THRESHOLD_DIRECT" using miss unfolding rs by auto
  from thr obtain row where row: "row \<in> set ?df" "THRESHOLD_TOKEN_SET \<le> ?t row" by blast
  then have "?t row \<le> Max (set ?ts)" unfolding ts by (intro Max_ge) auto
  with row(2) have above: "\<not> Max (set ?ts) < THRESHOLD_TOKEN_SET" by simp
  have long: "1 < length ?idxs"
    using tie unfolding attaining_max_idxs [OF ne, of ?t] ts .
  have stage: "get_matching_cpu fz d ?df greedy =
      (if length ?idxs = 1 \<or> greedy then Inr (Some (Name (?df ! hd ?idxs))) else Inr None)"
    for greedy
    using token_stage_result [OF ne dmiss, of greedy] above unfolding Let_def by simp
  have m: "get_matching_cpu fz d ?df False = Inr None"
    using stage [of False] long by simp
  have reg: "get_cpu_power_from_registry fz h d = Inr None"
    by (simp add: get_cpu_power_from_registry_def m)
  have main: "TDP_main fz h = Inr ((d, None), [Warning_unknown_model d])"
    using det reg by (rule TDP_main_no_power) simp
  have "?idxs \<noteq> []" using long by auto
  then have "hd ?idxs \<in> set ?idxs" by (rule hd_in_set)
  then have "hd ?idxs < length ?df" by simp
  moreover have "get_matching_cpu fz d ?df True = Inr (Some (Name (?df ! hd ?idxs)))"
    using stage [of True] by simp
  ultimately have g: "\<exists>i<length ?df. get_matching_cpu fz d ?df True = Inr (Some (Name (?df ! i)))"
    by blast
  from m reg main TDP_init_of_main [OF main] g show ?thesis by blast
qed

theorem public_resolver_not_greedy_witness:
  "detect_cpu_model tie_host = Some ''i7 Core Intel''
   \<and> get_matching_cpu sample_fuzz ''i7 Core Intel'' (cpu_power_data tie_host) False = Inr None
   \<and> TDP_init sample_fuzz tie_host
       = Inr (\<lparr>model = ''i7 Core Intel'', tdp = None\<rparr>, [Warning_unknown_model ''i7 Core Intel''])
   \<and> (\<exists>i<length (cpu_power_data tie_host).
         get_matching_cpu sample_fuzz ''i7 Core Intel'' (cpu_power_data tie_host) True
           = Inr (Some (Name (cpu_power_data tie_host ! i))))"
proof -
  let ?d = "''i7 Core Intel''"
  have det: "detect_cpu_model tie_host = Some ?d" by code_simp
  have dne: "?d \<noteq> []" by simp
  have ne: "cpu_power_data tie_host \<noteq> []" by code_simp
  have miss: "\<forall>row \<in> set (cpu_power_data tie_host).
                 ratio sample_fuzz (lower ?d) (lower (Name row)) < THRESHOLD_DIRECT"
    by code_simp
  have thr: "\<exists>row \<in> set (cpu_power_data tie_host).
                 THRESHOLD_TOKEN_SET \<le> token_set_ratio sample_fuzz ?d (Name row)"
    by code_simp
  have tie: "1 < length (filter (\<lambda>i. \<forall>row \<in> set (cpu_power_data tie_host).
                              token_set_ratio sample_fuzz ?d (Name row)
                                \<le> token_set_ratio sample_fuzz ?d (Name (cpu_power_data tie_host ! i)))
                         [0..<length (cpu_power_data tie_host)])"
    by code_simp
  note T = public_resolver_not_greedy [OF det dne ne miss thr tie]
  show ?thesis
    by (intro conjI) (rule det, rule T [THEN conjunct1],
        rule T [THEN conjunct2, THEN conjunct2, THEN conjunct2, THEN conjunct1],
        rule T [THEN conjunct2, THEN conjunct2, THEN conjunct2, THEN conjunct2])
qed

section \<open>A TDP of zero is reported as an unknown model\<close>

text \<open>
  Claim C9. When the detected model matches a row whose TDP is 0, \<open>_main\<close> returns the
  detected model string with an absent TDP and logs the unknown-model warning, exactly
  as it does when no row matches; so a TDP that is present in the result of \<open>_main\<close>,
  or in the \<open>TDP\<close> object, is never 0.
\<close>

theorem zero_tdp_reported_as_unknown:
  "(detect_cpu_model h = Some d \<and> d \<noteq> []
      \<and> get_matching_cpu fz d (cpu_power_data h) False = Inr (Some n) \<and> n \<noteq> []
      \<and> get_cpu_constant_power n (cpu_power_data h) = Inr 0
    \<longrightarrow> TDP_main fz h = Inr ((d, None), [Warning_unknown_model d])
      \<and> TDP_init fz h = Inr (\<lparr>model = d, tdp = None\<rparr>, [Warning_unknown_model d]))
   \<and> (detect_cpu_model h = Some d \<and> d \<noteq> []
      \<and> get_matching_cpu fz d (cpu_power_data h) False = Inr None
    \<longrightarrow> TDP_main fz h = Inr ((d, None), [Warning_unknown_model d])
      \<and> TDP_init fz h = Inr (\<lparr>model = d, tdp = None\<rparr>, [Warning_unknown_model d]))
   \<and> (\<forall>m p logged. TDP_main fz h = Inr ((m, Some p), logged) \<longrightarrow> p \<noteq> 0)
   \<and> (\<forall>obj logged p. TDP_init fz h = Inr (obj, logged) \<and> tdp obj = Some p \<longrightarrow> p \<noteq> 0)"
proof (intro conjI impI allI)
  assume a: "detect_cpu_model h = Some d \<and> d \<noteq> []
      \<and> get_matching_cpu fz d (cpu_power_data h) False = Inr (Some n) \<and> n \<noteq> []
      \<and> get_cpu_constant_power n (cpu_power_data h) = Inr 0"
  then have reg: "get_cpu_power_from_registry fz h d = Inr (Some 0)"
    by (simp add: get_cpu_power_from_registry_def)
  from a have det: "detect_cpu_model h = Some d" "d \<noteq> []" by simp_all
  show main: "TDP_main fz h = Inr ((d, None), [Warning_unknown_model d])"
    using det reg by (rule TDP_main_no_power) simp
  show "TDP_init fz h = Inr (\<lparr>model = d, tdp = None\<rparr>, [Warning_unknown_model d])"
    using main by (rule TDP_init_of_main)
next
  assume a: "detect_cpu_model h = Some d \<and> d \<noteq> []
      \<and> get_matching_cpu fz d (cpu_power_data h) False = Inr None"
  then have reg: "get_cpu_power_from_registry fz h d = Inr None"
    by (simp add: get_cpu_power_from_registry_def)
  from a have det: "detect_cpu_model h = Some d" "d \<noteq> []" by simp_all
  show main: "TDP_main fz h = Inr ((d, None), [Warning_unknown_model d])"
    using det reg by (rule TDP_main_no_power) simp
  show "TDP_init fz h = Inr (\<lparr>model = d, tdp = None\<rparr>, [Warning_unknown_model d])"
    using main by (rule TDP_init_of_main)
next
  fix m p logged assume "TDP_main fz h = Inr ((m, Some p), logged)"
  then show "p \<noteq> 0"
    by (auto simp: TDP_main_def split: option.splits if_splits sum.splits)
next
  fix obj logged p assume "TDP_init fz h = Inr (obj, logged) \<and> tdp obj = Some p"
  then show "p \<noteq> 0"
    by (auto simp: TDP_init_def TDP_main_def split: option.splits if_splits sum.splits)
qed

theorem zero_tdp_reported_as_unknown_witness:
  "get_matching_cpu sample_fuzz ''amd opteron 3280'' (cpu_power_data zero_tdp_host) False
     = Inr (Some ''AMD Opteron 3280'')
   \<and> get_cpu_constant_power ''AMD Opteron 3280'' (cpu_power_data zero_tdp_host) = Inr 0
   \<and> TDP_main sample_fuzz zero_tdp_host
       = Inr ((''amd opteron 3280'', None), [Warning_unknown_model ''amd opteron 3280''])
   \<and> get_matching_cpu sample_fuzz ''Zilog Z80'' (cpu_power_data unknown_cpu_host) False = Inr None
   \<and> TDP_main sample_fuzz unknown_cpu_host
       = Inr ((''Zilog Z80'', None), [Warning_unknown_model ''Zilog Z80''])
   \<and> TDP_main sample_fuzz linux_host
       = Inr ((''Intel(R) Core(TM) i7-9750H CPU @ 2.60GHz'', Some 45),
              [Debug_detected ''Intel(R) Core(TM) i7-9750H CPU @ 2.60GHz'' (Some 45)])
   \<and> (45::int) \<noteq> 0"
proof -
  let ?z = "''amd opteron 3280''"
  let ?n = "''AMD Opteron 3280''"
  let ?u = "''Zilog Z80''"
  have zd: "detect_cpu_model zero_tdp_host = Some ?z" by code_simp
  have zm: "get_matching_cpu sample_fuzz ?z (cpu_power_data zero_tdp_host) False = Inr (Some ?n)"
    by code_simp
  have zp: "get_cpu_constant_power ?n (cpu_power_data zero_tdp_host) = Inr 0" by code_simp
  have z: "detect_cpu_model zero_tdp_host = Some ?z \<and> ?z \<noteq> []
      \<and> get_matching_cpu sample_fuzz ?z (cpu_power_data zero_tdp_host) False = Inr (Some ?n)
      \<and> ?n \<noteq> []
      \<and> get_cpu_constant_power ?n (cpu_power_data zero_tdp_host) = Inr 0"
    using zd zm zp by simp
  have r1: "TDP_main sample_fuzz zero_tdp_host = Inr ((?z, None), [Warning_unknown_model ?z])"
    using zero_tdp_reported_as_unknown [of zero_tdp_host ?z sample_fuzz ?n,
        THEN conjunct1, THEN mp, OF z, THEN conjunct1] .
  have ud: "detect_cpu_model unknown_cpu_host = Some ?u" by code_simp
  have um: "get_matching_cpu sample_fuzz ?u (cpu_power_data unknown_cpu_host) False = Inr None"
    by code_simp
  have u: "detect_cpu_model unknown_cpu_host = Some ?u \<and> ?u \<noteq> []
      \<and> get_matching_cpu sample_fuzz ?u (cpu_power_data unknown_cpu_host) False = Inr None"
    using ud um by simp
  have r2: "TDP_main sample_fuzz unknown_cpu_host = Inr ((?u, None), [Warning_unknown_model ?u])"
    using zero_tdp_reported_as_unknown [of unknown_cpu_host ?u sample_fuzz ?n,
        THEN conjunct2, THEN conjunct1, THEN mp, OF u, THEN conjunct1] .
  have l: "TDP_main sample_fuzz linux_host
       = Inr ((''Intel(R) Core(TM) i7-9750H CPU @ 2.60GHz'', Some 45),
              [Debug_detected ''Intel(R) Core(TM) i7-9750H CPU @ 2.60GHz'' (Some 45)])"
    by code_simp
  have r3: "(45::int) \<noteq> 0"
    using zero_tdp_reported_as_unknown [of linux_host ?z sample_fuzz ?n,
        THEN conjunct2, THEN conjunct2, THEN conjunct1, rule_format, OF l] .
  show ?thesis
    by (intro conjI) (rule zm, rule zp, rule r1, rule um, rule r2, rule l, rule r3)
qed

section \<open>The matched name is a name of the dataset\<close>

text \<open>
  Claim C10. Whenever \<open>_get_matching_cpu\<close> returns a name (not \<open>None\<close>), that name
  occurs in the \<open>Name\<close> column of the dataset, so \<open>_get_cpu_constant_power\<close> finds at
  least one row with that name: it does not raise, and returns the \<open>TDP\<close> of a row
  of that name.
\<close>

theorem matched_name_in_dataset:
  assumes m: "get_matching_cpu fz model_raw cpu_df greedy = Inr (Some n)"
  shows "n \<in> set (map Name cpu_df)
       \<and> (\<exists>row \<in> set cpu_df. Name row = n \<and> get_cpu_constant_power n cpu_df = Inr (TDP row))"
proof -
  have ne: "cpu_df \<noteq> []"
    using m by (auto simp: get_matching_cpu_def get_direct_matches_def py_max_def)
  let ?rs = "get_direct_matches fz model_raw cpu_df"
  have "\<exists>i<length cpu_df. n = Name (cpu_df ! i)"
  proof (cases "THRESHOLD_DIRECT \<le> Max (set ?rs)")
    case True
    from direct_stage_result [OF ne True, of greedy] m show ?thesis by auto
  next
    case False
    then have miss: "Max (set ?rs) < THRESHOLD_DIRECT" by simp
    let ?ts = "get_token_set_matches fz model_raw cpu_df"
    let ?idxs = "filter (\<lambda>i. ?ts ! i = Max (set ?ts)) [0..<length cpu_df]"
    from token_stage_result [OF ne miss, of greedy] m
    have n: "n = Name (cpu_df ! hd ?idxs)" and c: "length ?idxs = 1 \<or> greedy"
      and above: "\<not> Max (set ?ts) < THRESHOLD_TOKEN_SET"
      by (auto simp: Let_def split: if_splits)
    have len: "length ?ts = length cpu_df" by (simp add: get_token_set_matches_def)
    have "?ts \<noteq> []" using ne len by auto
    then have "Max (set ?ts) \<in> set ?ts" by (intro Max_in) auto
    then obtain k where "k < length ?ts" "?ts ! k = Max (set ?ts)" by (auto simp: in_set_conv_nth)
    then have "k \<in> set ?idxs" using len by simp
    then have "?idxs \<noteq> []" by (metis empty_iff empty_set)
    then have "hd ?idxs \<in> set ?idxs" by (rule hd_in_set)
    then have "hd ?idxs < length cpu_df" by simp
    with n show ?thesis by blast
  qed
  then have "n \<in> set (map Name cpu_df)" by auto
  with get_cpu_constant_power_first [OF this] show ?thesis by blast
qed

theorem matched_name_in_dataset_witness:
  "get_matching_cpu sample_fuzz ''i7 Core Intel'' sample_df True = Inr (Some ''Intel Core i7'')
   \<and> ''Intel Core i7'' \<in> set (map Name sample_df)
   \<and> (\<exists>row \<in> set sample_df. Name row = ''Intel Core i7''
         \<and> get_cpu_constant_power ''Intel Core i7'' sample_df = Inr (TDP row))"
proof -
  have m: "get_matching_cpu sample_fuzz ''i7 Core Intel'' sample_df True = Inr (Some ''Intel Core i7'')"
    by code_simp
  from matched_name_in_dataset [OF m] m show ?thesis by blast
qed

end
